theory Spec2Isabelle
  imports Main "HOL-Library.Word" "HOL-Library.AList"
begin

section \<open>Catalog entries, transactions and the catalog\<close>

text \<open>
  The embedding follows \<^verbatim>\<open>src/catalog/catalog_set.cpp\<close>. Catalog entries live in a heap of
  cells; a \<^verbatim>\<open>unique_ptr<CatalogEntry>\<close>, an \<^verbatim>\<open>optional_ptr<CatalogEntry>\<close> and a
  \<^verbatim>\<open>CatalogEntry &\<close> are addresses of cells. Every operation of the set takes the state and
  returns, beside its result or the exception it raised, the state it left behind.
  Exceptions are values of type \<open>error\<close>. The mutexes are not modelled: the operations run one
  after the other. \<^verbatim>\<open>D_ASSERT\<close> is compiled out (release build) and has no counterpart.
\<close>

type_synonym transaction_t = "64 word"

type_synonym addr = nat

datatype CatalogType =
  INVALID | RENAMED_ENTRY | DELETED_ENTRY | DEPENDENCY_ENTRY | DEPENDENCY_SET | OTHER_ENTRY nat

text \<open>
  The exceptions the set raises, and two faults: \<open>NullDereference\<close>, the dereference of a
  link that is not set (the parent of a chain head, the child of an oldest version), and
  \<open>DanglingPointer\<close>, the use of an address that holds no live entry.
\<close>

datatype error =
  InternalException | InvalidInputException | TransactionException | CatalogException
  | NullDereference | DanglingPointer

text \<open>
  Modelled from the spec: the class \<^verbatim>\<open>CatalogEntry\<close> is declared in a header that is not among
  the sources. The spec (section 3) gives a version node a name, an object-kind tag, the flags
  internal, temporary and deleted, a timestamp, a link to the next-older version (child, owned
  by the node) and a link to the next-newer version (parent).
\<close>

record CatalogEntry =
  type :: CatalogType
  name :: string
  internal :: bool
  temporary :: bool
  deleted :: bool
  timestamp :: transaction_t
  child :: "addr option"
  parent :: "addr option"

text \<open>
  \<^verbatim>\<open>CatalogTransaction\<close>: \<open>transaction\<close> is the optional active transaction (its handle) whose
  undo buffer receives superseded versions, \<open>client_context\<close> the optional client context.
\<close>

record CatalogTransaction =
  transaction_id :: transaction_t
  start_time :: transaction_t
  transaction :: "nat option"
  client_context :: "nat option"

record AlterInfo =
  allow_internal :: bool
  column_name :: string

type_synonym DependencyList = "string list"

text \<open>Calls that leave the set: they are recorded in the order they are made.\<close>

datatype event =
  EvAddObject CatalogEntry
  | EvAlterObject addr addr
  | EvDropObject addr
  | EvUndoAlter addr
  | EvSetAsRoot addr
  | EvModifyCatalog

text \<open>
  The catalog a set belongs to, with the collaborators the set calls. The constants
  \<^verbatim>\<open>TRANSACTION_ID_START\<close> and \<^verbatim>\<open>DEFAULT_SCHEMA\<close> are declared outside the sources and are
  parameters here. The dependency manager, the default generator and the \<^verbatim>\<open>AlterEntry\<close>
  method of an entry are external: each is a function of the arguments it is called with and
  does not touch this set; a dependency-manager call returns the exception it raises, if any.
\<close>

record Catalog =
  IsSystemCatalog :: bool
  IsTemporaryCatalog :: bool
  TRANSACTION_ID_START :: transaction_t
  DEFAULT_SCHEMA :: string
  AddObject :: "CatalogTransaction \<Rightarrow> CatalogEntry \<Rightarrow> DependencyList \<Rightarrow> error option"
  AlterObject :: "CatalogTransaction \<Rightarrow> CatalogEntry \<Rightarrow> CatalogEntry \<Rightarrow> error option"
  DropObject :: "CatalogTransaction \<Rightarrow> CatalogEntry \<Rightarrow> bool \<Rightarrow> error option"
  defaults :: "(nat \<Rightarrow> string \<Rightarrow> CatalogEntry option) option"
  EntryAlterEntry :: "CatalogEntry \<Rightarrow> AlterInfo \<Rightarrow> error + CatalogEntry option"

text \<open>
  The state of one \<^verbatim>\<open>CatalogSet\<close>: the heap of entries, the \<^verbatim>\<open>CatalogEntryMap\<close> (field
  \<open>entries\<close>: the case-insensitive map from a name to the head of its chain, kept as an
  association list keyed by the lower-cased name; its order is the iteration order), the flag
  \<^verbatim>\<open>created_all_entries\<close> of the default generator, the undo buffers of the transactions
  (transaction handle, pushed entry, serialized alter information) and the recorded calls.
\<close>

record CatalogSet =
  heap :: "CatalogEntry option list"
  entries :: "(string \<times> addr) list"
  created_all_entries :: bool
  undo_buffer :: "(nat \<times> addr \<times> AlterInfo option) list"
  events :: "event list"

type_synonym 'a result = "(error + 'a) \<times> CatalogSet"

definition ret :: "'a \<Rightarrow> CatalogSet \<Rightarrow> 'a result" where
  "ret x s = (Inr x, s)"

definition throw :: "error \<Rightarrow> CatalogSet \<Rightarrow> 'a result" where
  "throw e s = (Inl e, s)"

definition bindE ::
  "(CatalogSet \<Rightarrow> 'a result) \<Rightarrow> ('a \<Rightarrow> CatalogSet \<Rightarrow> 'b result) \<Rightarrow> CatalogSet \<Rightarrow> 'b result" where
  "bindE m f s = (case m s of (Inl e, s') \<Rightarrow> (Inl e, s') | (Inr x, s') \<Rightarrow> f x s')"

definition log_event :: "event \<Rightarrow> CatalogSet \<Rightarrow> unit result" where
  "log_event ev s = (Inr (), s\<lparr>events := events s @ [ev]\<rparr>)"

subsection \<open>The heap\<close>

definition lookup :: "CatalogEntry option list \<Rightarrow> addr \<Rightarrow> CatalogEntry option" where
  "lookup h a = (if a < length h then h ! a else None)"

text \<open>Reading through a pointer: an address that holds no live entry is a dangling pointer.\<close>

definition get :: "addr \<Rightarrow> CatalogSet \<Rightarrow> CatalogEntry result" where
  "get a s = (case lookup (heap s) a of None \<Rightarrow> (Inl DanglingPointer, s) | Some e \<Rightarrow> (Inr e, s))"

definition modify :: "addr \<Rightarrow> (CatalogEntry \<Rightarrow> CatalogEntry) \<Rightarrow> CatalogSet \<Rightarrow> unit result" where
  "modify a f s =
     (case lookup (heap s) a of
        None \<Rightarrow> (Inl DanglingPointer, s)
      | Some e \<Rightarrow> (Inr (), s\<lparr>heap := (heap s)[a := Some (f e)]\<rparr>))"

text \<open>
  \<^verbatim>\<open>make_uniq\<close>: a freshly constructed entry is given by its fields; it enters the heap at a
  new address, owning no child and having no parent.
\<close>

definition make_uniq :: "CatalogEntry \<Rightarrow> CatalogSet \<Rightarrow> addr result" where
  "make_uniq e s =
     (Inr (length (heap s)), s\<lparr>heap := heap s @ [Some (e\<lparr>child := None, parent := None\<rparr>)]\<rparr>)"

definition live_count :: "CatalogEntry option list \<Rightarrow> nat" where
  "live_count h = length (filter (\<lambda>c. c \<noteq> None) h)"

lemma live_count_free:
  "a < length h \<Longrightarrow> h ! a = Some e \<Longrightarrow> live_count (h[a := None]) < live_count h"
proof (induction h arbitrary: a)
  case Nil
  then show ?case by simp
next
  case (Cons x xs)
  show ?case
  proof (cases a)
    case 0
    with Cons.prems show ?thesis by (simp add: live_count_def)
  next
    case (Suc b)
    with Cons.prems have "live_count (xs[b := None]) < live_count xs"
      by (intro Cons.IH) simp_all
    with Suc show ?thesis by (simp add: live_count_def)
  qed
qed

text \<open>
  The destructor of a \<^verbatim>\<open>unique_ptr<CatalogEntry>\<close>: the entry is freed and, with it, the chain
  of children it still owns.
\<close>

function destroy_chain :: "CatalogEntry option list \<Rightarrow> addr \<Rightarrow> CatalogEntry option list" where
  "destroy_chain h a =
     (if a < length h then
        (case h ! a of
           None \<Rightarrow> h
         | Some e \<Rightarrow>
             (case child e of
                None \<Rightarrow> h[a := None]
              | Some c \<Rightarrow> destroy_chain (h[a := None]) c))
      else h)"
  by pat_completeness auto
termination
  by (relation "measure (\<lambda>(h, a). live_count h)") (auto simp: live_count_free)

declare destroy_chain.simps [simp del]

definition destroy :: "addr \<Rightarrow> CatalogSet \<Rightarrow> unit result" where
  "destroy a s =
     (case lookup (heap s) a of
        None \<Rightarrow> (Inl DanglingPointer, s)
      | Some e \<Rightarrow> (Inr (), s\<lparr>heap := destroy_chain (heap s) a\<rparr>))"

subsection \<open>The chain links of an entry\<close>

text \<open>
  Modelled from the spec: \<^verbatim>\<open>SetChild\<close>, \<^verbatim>\<open>TakeChild\<close> and \<^verbatim>\<open>SetAsRoot\<close> are members of
  \<^verbatim>\<open>CatalogEntry\<close>, whose implementation is not among the sources. By the spec (section 3) a
  non-head node is owned by its parent and has exactly one parent: \<^verbatim>\<open>SetChild\<close> takes ownership
  of the new child (the child it owned before is destroyed) and makes itself the child's
  parent; \<^verbatim>\<open>TakeChild\<close> gives the child up and clears the child's parent link. \<^verbatim>\<open>SetAsRoot\<close>
  changes nothing in the set and is recorded as a call.
\<close>

definition SetChild :: "addr \<Rightarrow> addr option \<Rightarrow> CatalogSet \<Rightarrow> unit result" where
  "SetChild this child_p =
     bindE (get this) (\<lambda>e.
     bindE (case child e of None \<Rightarrow> ret () | Some old \<Rightarrow> destroy old) (\<lambda>_.
     bindE (modify this (\<lambda>x. x\<lparr>child := child_p\<rparr>)) (\<lambda>_.
       (case child_p of
          None \<Rightarrow> ret ()
        | Some c \<Rightarrow> modify c (\<lambda>x. x\<lparr>parent := Some this\<rparr>)))))"

definition TakeChild :: "addr \<Rightarrow> CatalogSet \<Rightarrow> addr option result" where
  "TakeChild this =
     bindE (get this) (\<lambda>e.
       (case child e of
          None \<Rightarrow> ret None
        | Some c \<Rightarrow>
            bindE (modify c (\<lambda>x. x\<lparr>parent := None\<rparr>)) (\<lambda>_.
            bindE (modify this (\<lambda>x. x\<lparr>child := None\<rparr>)) (\<lambda>_.
            ret (Some c)))))"

text \<open>
  Modelled from the spec: the constructor of \<^verbatim>\<open>InCatalogEntry\<close> is not among the sources; a
  new entry has its kind and name, no flag set and no link.
\<close>

definition InCatalogEntry :: "CatalogType \<Rightarrow> string \<Rightarrow> CatalogEntry" where
  "InCatalogEntry ty nm =
     \<lparr>type = ty, name = nm, internal = False, temporary = False, deleted = False,
      timestamp = 0, child = None, parent = None\<rparr>"

subsection \<open>Names\<close>

text \<open>
  Modelled from the spec: \<^verbatim>\<open>StringUtil\<close> is not among the sources. Object names are
  case-insensitive (spec, section 4.1): two names are equal when they agree after mapping
  the letters A to Z to lower case.
\<close>

definition CharacterToLower :: "char \<Rightarrow> char" where
  "CharacterToLower c =
     (case map_of (zip ''ABCDEFGHIJKLMNOPQRSTUVWXYZ'' ''abcdefghijklmnopqrstuvwxyz'') c of
        Some d \<Rightarrow> d
      | None \<Rightarrow> c)"

definition Lower :: "string \<Rightarrow> string" where
  "Lower nm = map CharacterToLower nm"

definition CIEquals :: "string \<Rightarrow> string \<Rightarrow> bool" where
  "CIEquals a b = (Lower a = Lower b)"

section \<open>CatalogEntryMap\<close>

definition Map_GetEntry :: "CatalogSet \<Rightarrow> string \<Rightarrow> addr option" where
  "Map_GetEntry s nm = map_of (entries s) (Lower nm)"

text \<open>
  \<^verbatim>\<open>AddEntry\<close> and \<^verbatim>\<open>UpdateEntry\<close> receive an entry held by a \<^verbatim>\<open>unique_ptr\<close>: a value of type
  \<open>CatalogEntry\<close>. When the lookup of its name makes the map throw, the \<^verbatim>\<open>unique_ptr\<close> is
  destroyed on unwinding and the heap is as before. Otherwise the map takes ownership: the
  entry enters the heap, and its address is returned.
\<close>

definition Map_AddEntry :: "CatalogEntry \<Rightarrow> CatalogSet \<Rightarrow> addr result" where
  "Map_AddEntry entry s =
     (case Map_GetEntry s (name entry) of
        Some _ \<Rightarrow> throw InternalException s
      | None \<Rightarrow>
          bindE (make_uniq entry) (\<lambda>a s'.
            ret a (s'\<lparr>entries := (Lower (name entry), a) # entries s'\<rparr>)) s)"

definition Map_UpdateEntry :: "CatalogEntry \<Rightarrow> CatalogSet \<Rightarrow> addr result" where
  "Map_UpdateEntry catalog_entry s =
     (case Map_GetEntry s (name catalog_entry) of
        None \<Rightarrow> throw InternalException s
      | Some existing \<Rightarrow>
          bindE (make_uniq catalog_entry) (\<lambda>a.
          bindE (\<lambda>s'. SetChild a (Some existing)
                        (s'\<lparr>entries :=
                             AList.update (Lower (name catalog_entry)) a (entries s')\<rparr>)) (\<lambda>_.
          ret a)) s)"

definition Map_DropEntry :: "addr \<Rightarrow> CatalogSet \<Rightarrow> unit result" where
  "Map_DropEntry entry =
     bindE (get entry) (\<lambda>e s.
       (case Map_GetEntry s (name e) of
          None \<Rightarrow> throw InternalException s
        | Some chain \<Rightarrow>
            bindE (TakeChild entry) (\<lambda>child_p.
            bindE (get entry) (\<lambda>e'.
              (case parent e' of
                 None \<Rightarrow>
                   bindE (destroy chain) (\<lambda>_ s'.
                     (case child_p of
                        Some c \<Rightarrow>
                          ret () (s'\<lparr>entries := AList.update (Lower (name e)) c (entries s')\<rparr>)
                      | None \<Rightarrow>
                          ret () (s'\<lparr>entries := AList.delete (Lower (name e)) (entries s')\<rparr>)))
               | Some p \<Rightarrow> SetChild p child_p))) s))"

section \<open>CatalogSet\<close>

text \<open>
  An entry held by a local \<^verbatim>\<open>unique_ptr\<close> (the candidate \<^verbatim>\<open>value\<close> of \<^verbatim>\<open>CreateEntry\<close>, the
  replacement returned by \<^verbatim>\<open>AlterEntry\<close> of an entry, the entry made by the default generator)
  is a value of type \<open>CatalogEntry\<close>; it enters the heap when the map takes ownership of it,
  and leaves no trace when the operation returns or throws before that.
  An operation that may not return has an \<open>option\<close> result: \<open>None\<close> is not returning.
\<close>

type_synonym 'a presult = "((error + 'a) \<times> CatalogSet) option"

definition bindP :: "'a presult \<Rightarrow> ('a \<Rightarrow> CatalogSet \<Rightarrow> 'b presult) \<Rightarrow> 'b presult" where
  "bindP m f =
     (case m of
        None \<Rightarrow> None
      | Some (Inl e, s') \<Rightarrow> Some (Inl e, s')
      | Some (Inr x, s') \<Rightarrow> f x s')"

definition IsDependencyEntry :: "CatalogEntry \<Rightarrow> bool" where
  "IsDependencyEntry entry = (type entry = DEPENDENCY_ENTRY \<or> type entry = DEPENDENCY_SET)"

definition HasConflict :: "Catalog \<Rightarrow> CatalogTransaction \<Rightarrow> transaction_t \<Rightarrow> bool" where
  "HasConflict catalog tx ts =
     ((ts \<ge> TRANSACTION_ID_START catalog \<and> ts \<noteq> transaction_id tx) \<or>
      (ts < TRANSACTION_ID_START catalog \<and> ts > start_time tx))"

definition UseTimestamp :: "CatalogTransaction \<Rightarrow> transaction_t \<Rightarrow> bool" where
  "UseTimestamp tx ts =
     (if ts = transaction_id tx then True
      else if ts < start_time tx then True
      else False)"

partial_function (option) GetEntryForTransaction ::
  "CatalogEntry option list \<Rightarrow> CatalogTransaction \<Rightarrow> addr \<Rightarrow> (error + addr) option" where
  "GetEntryForTransaction h tx entry =
     (case lookup h entry of
        None \<Rightarrow> Some (Inl DanglingPointer)
      | Some e \<Rightarrow>
          (case child e of
             None \<Rightarrow> Some (Inr entry)
           | Some c \<Rightarrow>
               if UseTimestamp tx (timestamp e) then Some (Inr entry)
               else GetEntryForTransaction h tx c))"

declare GetEntryForTransaction.simps [code]

partial_function (option) GetCommittedEntry ::
  "Catalog \<Rightarrow> CatalogEntry option list \<Rightarrow> addr \<Rightarrow> (error + addr) option" where
  "GetCommittedEntry catalog h entry =
     (case lookup h entry of
        None \<Rightarrow> Some (Inl DanglingPointer)
      | Some e \<Rightarrow>
          (case child e of
             None \<Rightarrow> Some (Inr entry)
           | Some c \<Rightarrow>
               if timestamp e < TRANSACTION_ID_START catalog then Some (Inr entry)
               else GetCommittedEntry catalog h c))"

declare GetCommittedEntry.simps [code]

text \<open>\<^verbatim>\<open>GetEntryInternal(transaction, catalog_entry)\<close>\<close>

definition GetEntryInternal_entry ::
  "Catalog \<Rightarrow> CatalogTransaction \<Rightarrow> addr \<Rightarrow> CatalogSet \<Rightarrow> addr option result" where
  "GetEntryInternal_entry catalog tx catalog_entry =
     bindE (get catalog_entry) (\<lambda>e.
       if HasConflict catalog tx (timestamp e) then throw TransactionException
       else if deleted e then ret None
       else ret (Some catalog_entry))"

text \<open>\<^verbatim>\<open>GetEntryInternal(transaction, name)\<close>\<close>

definition GetEntryInternal ::
  "Catalog \<Rightarrow> CatalogTransaction \<Rightarrow> string \<Rightarrow> CatalogSet \<Rightarrow> addr option result" where
  "GetEntryInternal catalog tx nm s =
     (case Map_GetEntry s nm of
        None \<Rightarrow> ret None s
      | Some entry_value \<Rightarrow> GetEntryInternal_entry catalog tx entry_value s)"

definition CreateEntryInternal :: "CatalogEntry \<Rightarrow> CatalogSet \<Rightarrow> addr option result" where
  "CreateEntryInternal entry s =
     (case Map_GetEntry s (name entry) of
        Some _ \<Rightarrow> ret None s
      | None \<Rightarrow>
          bindE (Map_AddEntry (entry\<lparr>timestamp := 0\<rparr>)) (\<lambda>catalog_entry.
          ret (Some catalog_entry)) s)"

text \<open>
  The part of \<^verbatim>\<open>GetEntry\<close> that runs when the map holds a chain for the name: the entry for
  the transaction, unless it is deleted.
\<close>

definition GetEntry_found ::
  "CatalogTransaction \<Rightarrow> addr \<Rightarrow> CatalogSet \<Rightarrow> addr option presult" where
  "GetEntry_found tx catalog_entry s =
     (case GetEntryForTransaction (heap s) tx catalog_entry of
        None \<Rightarrow> None
      | Some (Inl x) \<Rightarrow> Some (Inl x, s)
      | Some (Inr current) \<Rightarrow>
          Some (bindE (get current) (\<lambda>ce.
                  if deleted ce then ret None else ret (Some current)) s))"

text \<open>
  \<^verbatim>\<open>CreateDefaultEntry\<close> ends, when the generated entry could not be added, in a call of
  \<^verbatim>\<open>GetEntry\<close>, which calls \<^verbatim>\<open>CreateDefaultEntry\<close> again when the map has no chain for the
  name: that call of \<^verbatim>\<open>GetEntry\<close> is written out in the last branch.
\<close>

partial_function (option) CreateDefaultEntry ::
  "Catalog \<Rightarrow> CatalogTransaction \<Rightarrow> string \<Rightarrow> CatalogSet \<Rightarrow> addr option presult" where
  "CreateDefaultEntry catalog tx nm s =
     (case defaults catalog of
        None \<Rightarrow> Some (Inr None, s)
      | Some generator \<Rightarrow>
          if created_all_entries s then Some (Inr None, s)
          else
            (case client_context tx of
               None \<Rightarrow> Some (Inr None, s)
             | Some ctx \<Rightarrow>
                 (case generator ctx nm of
                    None \<Rightarrow> Some (Inr None, s)
                  | Some entry \<Rightarrow>
                      (case CreateEntryInternal entry s of
                         (Inl x, s') \<Rightarrow> Some (Inl x, s')
                       | (Inr (Some result), s') \<Rightarrow> Some (Inr (Some result), s')
                       | (Inr None, s') \<Rightarrow>
                           (case Map_GetEntry s' nm of
                              Some entry_value \<Rightarrow> GetEntry_found tx entry_value s'
                            | None \<Rightarrow> CreateDefaultEntry catalog tx nm s')))))"

declare CreateDefaultEntry.simps [code]

definition GetEntry ::
  "Catalog \<Rightarrow> CatalogTransaction \<Rightarrow> string \<Rightarrow> CatalogSet \<Rightarrow> addr option presult" where
  "GetEntry catalog tx nm s =
     (case Map_GetEntry s nm of
        Some entry_value \<Rightarrow> GetEntry_found tx entry_value s
      | None \<Rightarrow> CreateDefaultEntry catalog tx nm s)"

text \<open>
  \<^verbatim>\<open>PushCatalogEntry(new_entry->Child())\<close>, guarded by \<^verbatim>\<open>if (transaction.transaction)\<close>: the
  child of the new head goes to the undo buffer of the active transaction.
\<close>

definition PushCatalogEntry ::
  "CatalogTransaction \<Rightarrow> addr \<Rightarrow> AlterInfo option \<Rightarrow> CatalogSet \<Rightarrow> unit result" where
  "PushCatalogEntry tx new_entry extra =
     (case transaction tx of
        None \<Rightarrow> ret ()
      | Some t \<Rightarrow>
          bindE (get new_entry) (\<lambda>e.
            (case child e of
               None \<Rightarrow> throw NullDereference
             | Some c \<Rightarrow> (\<lambda>s. ret () (s\<lparr>undo_buffer := undo_buffer s @ [(t, c, extra)]\<rparr>)))))"

text \<open>The checks at the head of \<^verbatim>\<open>CreateEntry\<close>: the exception they raise, if any.\<close>

definition CreateEntry_checks :: "Catalog \<Rightarrow> string \<Rightarrow> CatalogEntry \<Rightarrow> error option" where
  "CreateEntry_checks catalog nm val =
     (if internal val \<and> \<not> IsSystemCatalog catalog \<and> nm \<noteq> DEFAULT_SCHEMA catalog
      then Some InternalException
      else if \<not> internal val then
        (if \<not> temporary val \<and> IsSystemCatalog catalog \<and> \<not> IsDependencyEntry val
         then Some InternalException
         else if temporary val \<and> \<not> IsTemporaryCatalog catalog
         then Some InternalException
         else if \<not> temporary val \<and> IsTemporaryCatalog catalog \<and> nm \<noteq> DEFAULT_SCHEMA catalog
         then Some InvalidInputException
         else None)
      else None)"

text \<open>
  The tail of \<^verbatim>\<open>CreateEntry\<close>: \<^verbatim>\<open>map.UpdateEntry(std::move(value))\<close>, the push to the undo
  buffer and \<^verbatim>\<open>return true\<close>.
\<close>

definition CreateEntry_publish ::
  "CatalogTransaction \<Rightarrow> CatalogEntry \<Rightarrow> CatalogSet \<Rightarrow> bool result" where
  "CreateEntry_publish tx val =
     bindE (Map_UpdateEntry val) (\<lambda>value_ptr.
     bindE (PushCatalogEntry tx value_ptr None) (\<lambda>_.
     ret True))"

definition CreateEntry ::
  "Catalog \<Rightarrow> CatalogTransaction \<Rightarrow> string \<Rightarrow> CatalogEntry \<Rightarrow> DependencyList \<Rightarrow> CatalogSet
    \<Rightarrow> bool presult" where
  "CreateEntry catalog tx nm val0 dependencies s0 =
     (case CreateEntry_checks catalog nm val0 of
        Some x \<Rightarrow> Some (Inl x, s0)
      | None \<Rightarrow>
          (let val = val0\<lparr>timestamp := transaction_id tx\<rparr>;
               s = s0\<lparr>events := events s0 @ [EvAddObject val]\<rparr>
           in case AddObject catalog tx val dependencies of
                Some x \<Rightarrow> Some (Inl x, s)
              | None \<Rightarrow>
                  (case Map_GetEntry s nm of
                     None \<Rightarrow>
                       bindP (CreateDefaultEntry catalog tx nm s) (\<lambda>entry s1.
                         (case entry of
                            Some _ \<Rightarrow> Some (Inr False, s1)
                          | None \<Rightarrow>
                              Some (bindE (Map_AddEntry
                                      ((InCatalogEntry INVALID nm)
                                         \<lparr>timestamp := 0, deleted := True\<rparr>)) (\<lambda>_.
                                    CreateEntry_publish tx val) s1)))
                   | Some current \<Rightarrow>
                       Some (bindE (get current) (\<lambda>ce.
                               if HasConflict catalog tx (timestamp ce)
                               then throw TransactionException
                               else if \<not> deleted ce then ret False
                               else CreateEntry_publish tx val) s))))"

definition DropDependencies ::
  "Catalog \<Rightarrow> CatalogTransaction \<Rightarrow> string \<Rightarrow> bool \<Rightarrow> bool \<Rightarrow> CatalogSet \<Rightarrow> bool presult" where
  "DropDependencies catalog tx nm cascade allow_drop_internal s =
     bindP (GetEntry catalog tx nm s) (\<lambda>r s1.
       (case r of
          None \<Rightarrow> Some (Inr False, s1)
        | Some entry \<Rightarrow>
            Some (bindE (get entry) (\<lambda>e.
                    if internal e \<and> \<not> allow_drop_internal then throw CatalogException
                    else
                      bindE (log_event (EvDropObject entry)) (\<lambda>_.
                        (case DropObject catalog tx e cascade of
                           Some x \<Rightarrow> throw x
                         | None \<Rightarrow> ret True))) s1)))"

definition DropEntryInternal ::
  "Catalog \<Rightarrow> CatalogTransaction \<Rightarrow> string \<Rightarrow> bool \<Rightarrow> CatalogType \<Rightarrow> CatalogSet \<Rightarrow> bool result" where
  "DropEntryInternal catalog tx nm allow_drop_internal tombstone_type =
     bindE (GetEntryInternal catalog tx nm) (\<lambda>r.
       (case r of
          None \<Rightarrow> ret False
        | Some entry \<Rightarrow>
            bindE (get entry) (\<lambda>e.
              if internal e \<and> \<not> allow_drop_internal then throw CatalogException
              else
                bindE (Map_UpdateEntry
                        ((InCatalogEntry tombstone_type (name e))
                           \<lparr>timestamp := transaction_id tx, deleted := True\<rparr>)) (\<lambda>value_ptr.
                bindE (PushCatalogEntry tx value_ptr None) (\<lambda>_.
                ret True)))))"

text \<open>
  Modelled from the spec: the default argument of \<^verbatim>\<open>DropEntryInternal\<close> for the kind of the
  tombstone is given in a header that is not among the sources; \<^verbatim>\<open>DropEntry\<close> publishes a
  plain tombstone (spec, section 4.2), the kind \<open>DELETED_ENTRY\<close>.
\<close>

definition DropEntry ::
  "Catalog \<Rightarrow> CatalogTransaction \<Rightarrow> string \<Rightarrow> bool \<Rightarrow> bool \<Rightarrow> CatalogSet \<Rightarrow> bool presult" where
  "DropEntry catalog tx nm cascade allow_drop_internal s =
     bindP (DropDependencies catalog tx nm cascade allow_drop_internal s) (\<lambda>ok s1.
       if \<not> ok then Some (Inr False, s1)
       else Some (DropEntryInternal catalog tx nm allow_drop_internal DELETED_ENTRY s1))"

text \<open>
  The block \<^verbatim>\<open>if (name_changed)\<close> of \<^verbatim>\<open>AlterEntry\<close>; it returns the address of the published
  replacement.
\<close>

definition AlterEntry_rename ::
  "Catalog \<Rightarrow> CatalogTransaction \<Rightarrow> addr \<Rightarrow> string \<Rightarrow> CatalogEntry \<Rightarrow> AlterInfo \<Rightarrow> CatalogSet
    \<Rightarrow> addr presult" where
  "AlterEntry_rename catalog tx entry original_name val alter_info s =
     bindP
       (case Map_GetEntry s (name val) of
          None \<Rightarrow> Some (Inr (), s)
        | Some entry_value \<Rightarrow>
            (case GetEntryForTransaction (heap s) tx entry_value of
               None \<Rightarrow> None
             | Some (Inl x) \<Rightarrow> Some (Inl x, s)
             | Some (Inr original_entry) \<Rightarrow>
                 Some (bindE (get original_entry) (\<lambda>oe.
                         if \<not> deleted oe
                         then bindE (log_event (EvUndoAlter entry)) (\<lambda>_. throw CatalogException)
                         else ret ()) s)))
       (\<lambda>_ s1.
     bindP (Some (DropEntryInternal catalog tx original_name False RENAMED_ENTRY s1)) (\<lambda>_ s2.
     bindP (CreateEntry catalog tx (name val)
              ((InCatalogEntry RENAMED_ENTRY (name val))
                 \<lparr>timestamp := transaction_id tx, deleted := False\<rparr>) [] s2) (\<lambda>_ s3.
     bindP (Some (GetEntryInternal catalog tx (name val) s3)) (\<lambda>_ s4.
     Some (Map_UpdateEntry val s4)))))"

definition AlterEntry ::
  "Catalog \<Rightarrow> CatalogTransaction \<Rightarrow> string \<Rightarrow> AlterInfo \<Rightarrow> CatalogSet \<Rightarrow> bool presult" where
  "AlterEntry catalog tx nm alter_info s =
     bindP (Some (GetEntryInternal catalog tx nm s)) (\<lambda>r s1.
       (case r of
          None \<Rightarrow> Some (Inr False, s1)
        | Some entry \<Rightarrow>
            bindP (Some (get entry s1)) (\<lambda>e s2.
              if \<not> allow_internal alter_info \<and> internal e then Some (Inl CatalogException, s2)
              else if client_context tx = None then Some (Inl InternalException, s2)
              else
                (case EntryAlterEntry catalog e alter_info of
                   Inl x \<Rightarrow> Some (Inl x, s2)
                 | Inr None \<Rightarrow> Some (Inr True, s2)
                 | Inr (Some val0) \<Rightarrow>
                     (let val = val0\<lparr>timestamp := transaction_id tx\<rparr>;
                          original_name = name e
                      in bindP
                           (if \<not> CIEquals (name val) original_name
                            then AlterEntry_rename catalog tx entry original_name val alter_info s2
                            else Some (Map_UpdateEntry val s2))
                           (\<lambda>new_entry s3.
                         Some (bindE (PushCatalogEntry tx new_entry (Some alter_info)) (\<lambda>_.
                               bindE (log_event (EvAlterObject entry new_entry)) (\<lambda>_.
                               bindE (get entry) (\<lambda>old_e.
                               bindE (get new_entry) (\<lambda>new_e.
                                 (case AlterObject catalog tx old_e new_e of
                                    Some x \<Rightarrow> throw x
                                  | None \<Rightarrow> ret True))))) s3)))))))"

definition CleanupEntry :: "addr \<Rightarrow> CatalogSet \<Rightarrow> unit result" where
  "CleanupEntry catalog_entry =
     bindE (get catalog_entry) (\<lambda>e.
       (case parent e of
          None \<Rightarrow> throw NullDereference
        | Some p \<Rightarrow>
            bindE (Map_DropEntry catalog_entry) (\<lambda>_.
            bindE (get p) (\<lambda>pe.
              if deleted pe \<and> child pe = None \<and> parent pe = None
              then Map_DropEntry p
              else ret ()))))"

definition Undo :: "addr \<Rightarrow> CatalogSet \<Rightarrow> unit result" where
  "Undo entry =
     bindE (get entry) (\<lambda>e.
       (case parent e of
          None \<Rightarrow> throw NullDereference
        | Some to_be_removed_node \<Rightarrow>
            bindE (get to_be_removed_node) (\<lambda>re.
            bindE (if parent re = None
                   then (case child re of
                           None \<Rightarrow> throw NullDereference
                         | Some c \<Rightarrow> log_event (EvSetAsRoot c))
                   else ret ()) (\<lambda>_.
            bindE (Map_DropEntry to_be_removed_node) (\<lambda>_.
            bindE (get entry) (\<lambda>e'.
            bindE (if type e' = INVALID then Map_DropEntry entry else ret ()) (\<lambda>_.
            log_event EvModifyCatalog)))))))"

definition UpdateTimestamp :: "addr \<Rightarrow> transaction_t \<Rightarrow> CatalogSet \<Rightarrow> unit result" where
  "UpdateTimestamp entry ts = modify entry (\<lambda>e. e\<lparr>timestamp := ts\<rparr>)"

text \<open>
  The untransacted \<^verbatim>\<open>Scan(callback)\<close>: the result lists, in the order of the calls, the entries
  the callback is invoked on.
\<close>

fun Scan_entries ::
  "Catalog \<Rightarrow> CatalogEntry option list \<Rightarrow> (string \<times> addr) list \<Rightarrow> (error + addr list) option" where
  "Scan_entries catalog h [] = Some (Inr [])"
| "Scan_entries catalog h (kv # kvs) =
     (case GetCommittedEntry catalog h (snd kv) of
        None \<Rightarrow> None
      | Some (Inl x) \<Rightarrow> Some (Inl x)
      | Some (Inr commited_entry) \<Rightarrow>
          (case lookup h commited_entry of
             None \<Rightarrow> Some (Inl DanglingPointer)
           | Some ce \<Rightarrow>
               (case Scan_entries catalog h kvs of
                  None \<Rightarrow> None
                | Some (Inl x) \<Rightarrow> Some (Inl x)
                | Some (Inr visited) \<Rightarrow>
                    Some (Inr (if \<not> deleted ce then commited_entry # visited else visited)))))"

definition Scan :: "Catalog \<Rightarrow> CatalogSet \<Rightarrow> (error + addr list) option" where
  "Scan catalog s = Scan_entries catalog (heap s) (entries s)"

section \<open>Example states\<close>

definition example_catalog :: Catalog where
  "example_catalog =
     \<lparr>IsSystemCatalog = False, IsTemporaryCatalog = False,
      TRANSACTION_ID_START = 4611686018427388000, DEFAULT_SCHEMA = ''main'',
      AddObject = (\<lambda>_ _ _. None), AlterObject = (\<lambda>_ _ _. None), DropObject = (\<lambda>_ _ _. None),
      defaults = None, EntryAlterEntry = (\<lambda>_ _. Inr None)\<rparr>"

definition empty_set :: CatalogSet where
  "empty_set =
     \<lparr>heap = [], entries = [], created_all_entries = False, undo_buffer = [], events = []\<rparr>"

text \<open>
  Transaction \<open>n\<close>, with a transaction-local id and an undo buffer, of the one client
  context.
\<close>

definition example_tx :: "nat \<Rightarrow> transaction_t \<Rightarrow> CatalogTransaction" where
  "example_tx n st =
     \<lparr>transaction_id = 4611686018427388000 + of_nat n, start_time = st,
      transaction = Some n, client_context = Some 0\<rparr>"

definition example_entry ::
  "string \<Rightarrow> transaction_t \<Rightarrow> bool \<Rightarrow> addr option \<Rightarrow> addr option \<Rightarrow> CatalogEntry" where
  "example_entry nm ts del c p =
     \<lparr>type = OTHER_ENTRY 0, name = nm, internal = False, temporary = False, deleted = del,
      timestamp = ts, child = c, parent = p\<rparr>"

text \<open>
  A set with one chain for \<open>t1\<close>: an uncommitted version written by transaction 2 above a
  version committed at time 3.
\<close>

definition example_set :: CatalogSet where
  "example_set =
     \<lparr>heap = [Some (example_entry ''t1'' 3 False None (Some 1)),
              Some (example_entry ''t1'' 4611686018427388002 False (Some 0) None)],
      entries = [(''t1'', 1)], created_all_entries = False, undo_buffer = [], events = []\<rparr>"

text \<open>
  A set with two tables, \<open>t1\<close> committed at time 3 and \<open>t2\<close> committed at time 4, and a catalog
  whose entries answer an alter request by a copy of themselves renamed to \<open>t2\<close>.
\<close>

definition two_tables_set :: CatalogSet where
  "two_tables_set =
     \<lparr>heap = [Some (example_entry ''t1'' 3 False None None),
              Some (example_entry ''t2'' 4 False None None)],
      entries = [(''t1'', 0), (''t2'', 1)], created_all_entries = False, undo_buffer = [],
      events = []\<rparr>"

definition renaming_catalog :: Catalog where
  "renaming_catalog = example_catalog\<lparr>EntryAlterEntry := (\<lambda>e _. Inr (Some (e\<lparr>name := ''t2''\<rparr>)))\<rparr>"

text \<open>
  A set whose only chain is a tombstone committed at time 7 above the version, committed at
  time 5, that it deleted.
\<close>

definition dropped_set :: CatalogSet where
  "dropped_set =
     \<lparr>heap = [Some (example_entry ''t1'' 5 False None (Some 1)),
              Some ((example_entry ''t1'' 7 True (Some 0) None)\<lparr>type := DELETED_ENTRY\<rparr>)],
      entries = [(''t1'', 1)], created_all_entries = False, undo_buffer = [], events = []\<rparr>"

section \<open>Evaluation\<close>

lemmas monad_defs = bindE_def bindP_def ret_def throw_def get_def modify_def make_uniq_def
  log_event_def

lemmas eval_defs = monad_defs lookup_def Map_GetEntry_def Map_AddEntry_def Map_UpdateEntry_def
  Map_DropEntry_def SetChild_def TakeChild_def destroy_def InCatalogEntry_def Lower_def
  CharacterToLower_def CIEquals_def HasConflict_def UseTimestamp_def GetEntryInternal_def
  GetEntryInternal_entry_def CreateEntryInternal_def GetEntry_found_def GetEntry_def
  PushCatalogEntry_def CreateEntry_checks_def CreateEntry_publish_def CreateEntry_def
  DropDependencies_def DropEntryInternal_def DropEntry_def AlterEntry_rename_def AlterEntry_def
  CleanupEntry_def Undo_def Scan_def IsDependencyEntry_def
  GetEntryForTransaction.simps GetCommittedEntry.simps CreateDefaultEntry.simps
  destroy_chain.simps example_catalog_def empty_set_def example_tx_def example_entry_def
  example_set_def two_tables_set_def renaming_catalog_def dropped_set_def

lemma get_live [simp]: "lookup (heap s) a = Some e \<Longrightarrow> get a s = (Inr e, s)"
  by (simp add: get_def)

lemma lookup_update:
  "lookup (h[a := v]) b = (if a = b \<and> a < length h then v else lookup h b)"
  by (auto simp: lookup_def)

lemma lookup_length: "lookup h a = Some e \<Longrightarrow> a < length h"
  by (auto simp: lookup_def split: if_splits)

lemma lookup_append:
  "lookup (h @ [v]) a = (if a = length h then v else lookup h a)"
  by (auto simp: lookup_def nth_append)

lemma destroy_chain_leaf:
  "lookup h a = Some e \<Longrightarrow> child e = None \<Longrightarrow> destroy_chain h a = h[a := None]"
  by (subst destroy_chain.simps) (auto simp: lookup_def split: if_splits)

section \<open>The checks of CreateEntry\<close>

text \<open>
  C7, as stated, fails in two ways. A candidate that is internal and temporary passes the
  checks in a system catalog that is not temporary: the check of temporary objects is made for
  non-internal candidates only. And a candidate that is neither internal nor temporary, in a
  temporary catalog and under a name other than the default schema, meets none of the three
  conditions and still does not pass: \<open>CreateEntry\<close> raises \<open>InvalidInputException\<close>.
\<close>

theorem CreateEntry_validation_counterexample:
  "temporary ((example_entry ''t1'' 0 False None None)\<lparr>internal := True, temporary := True\<rparr>)
   \<and> \<not> IsTemporaryCatalog (example_catalog\<lparr>IsSystemCatalog := True\<rparr>)
   \<and> map_option fst
       (CreateEntry (example_catalog\<lparr>IsSystemCatalog := True\<rparr>) (example_tx 1 5) ''t1''
          ((example_entry ''t1'' 0 False None None)\<lparr>internal := True, temporary := True\<rparr>) []
          empty_set) = Some (Inr True)
   \<and> \<not> internal (example_entry ''t1'' 0 False None None)
   \<and> \<not> temporary (example_entry ''t1'' 0 False None None)
   \<and> \<not> IsSystemCatalog (example_catalog\<lparr>IsTemporaryCatalog := True\<rparr>)
   \<and> CreateEntry (example_catalog\<lparr>IsTemporaryCatalog := True\<rparr>) (example_tx 1 5) ''t1''
        (example_entry ''t1'' 0 False None None) [] empty_set
      = Some (Inl InvalidInputException, empty_set)"
  by (simp add: eval_defs)

text \<open>
  C7, amended. The checks of \<open>CreateEntry\<close> raise \<open>InternalException\<close> exactly when the
  candidate is internal, the catalog is not the system catalog and the name is not the default
  schema; or the candidate is neither internal nor temporary, the catalog is the system catalog
  and the candidate is not a dependency object; or the candidate is temporary and not internal
  and the catalog is not temporary. They raise \<open>InvalidInputException\<close> exactly when none of
  these holds and the candidate is neither internal nor temporary, the catalog is temporary and
  the name is not the default schema. In every other case the checks pass. An exception of
  the checks is the outcome of \<open>CreateEntry\<close>, which leaves the set unchanged.
\<close>

theorem CreateEntry_validation:
  "((CreateEntry_checks catalog nm val = Some InternalException) =
      ((internal val \<and> \<not> IsSystemCatalog catalog \<and> nm \<noteq> DEFAULT_SCHEMA catalog) \<or>
       (\<not> internal val \<and> \<not> temporary val \<and> IsSystemCatalog catalog \<and> \<not> IsDependencyEntry val) \<or>
       (\<not> internal val \<and> temporary val \<and> \<not> IsTemporaryCatalog catalog)))
   \<and> ((CreateEntry_checks catalog nm val = Some InvalidInputException) =
      (\<not> internal val \<and> \<not> temporary val \<and> IsTemporaryCatalog catalog \<and>
       nm \<noteq> DEFAULT_SCHEMA catalog \<and> \<not> (IsSystemCatalog catalog \<and> \<not> IsDependencyEntry val)))
   \<and> ((CreateEntry_checks catalog nm val = None) =
      (if internal val then IsSystemCatalog catalog \<or> nm = DEFAULT_SCHEMA catalog
       else if temporary val then IsTemporaryCatalog catalog
       else \<not> (IsSystemCatalog catalog \<and> \<not> IsDependencyEntry val) \<and>
            \<not> (IsTemporaryCatalog catalog \<and> nm \<noteq> DEFAULT_SCHEMA catalog)))
   \<and> (\<forall>x. CreateEntry_checks catalog nm val = Some x \<longrightarrow>
          CreateEntry catalog tx nm val deps s = Some (Inl x, s))"
proof -
  have "CreateEntry catalog tx nm val deps s = Some (Inl x, s)"
    if "CreateEntry_checks catalog nm val = Some x" for x
    using that by (simp add: CreateEntry_def)
  moreover have "(CreateEntry_checks catalog nm val = Some InternalException) =
      ((internal val \<and> \<not> IsSystemCatalog catalog \<and> nm \<noteq> DEFAULT_SCHEMA catalog) \<or>
       (\<not> internal val \<and> \<not> temporary val \<and> IsSystemCatalog catalog \<and> \<not> IsDependencyEntry val) \<or>
       (\<not> internal val \<and> temporary val \<and> \<not> IsTemporaryCatalog catalog))"
    by (auto simp: CreateEntry_checks_def)
  moreover have "(CreateEntry_checks catalog nm val = Some InvalidInputException) =
      (\<not> internal val \<and> \<not> temporary val \<and> IsTemporaryCatalog catalog \<and>
       nm \<noteq> DEFAULT_SCHEMA catalog \<and> \<not> (IsSystemCatalog catalog \<and> \<not> IsDependencyEntry val))"
    by (auto simp: CreateEntry_checks_def)
  moreover have "(CreateEntry_checks catalog nm val = None) =
      (if internal val then IsSystemCatalog catalog \<or> nm = DEFAULT_SCHEMA catalog
       else if temporary val then IsTemporaryCatalog catalog
       else \<not> (IsSystemCatalog catalog \<and> \<not> IsDependencyEntry val) \<and>
            \<not> (IsTemporaryCatalog catalog \<and> nm \<noteq> DEFAULT_SCHEMA catalog))"
    by (auto simp: CreateEntry_checks_def)
  ultimately show ?thesis by blast
qed

theorem CreateEntry_validation_witness:
  "CreateEntry_checks example_catalog ''t1''
     ((example_entry ''t1'' 0 False None None)\<lparr>internal := True\<rparr>) = Some InternalException
   \<and> CreateEntry example_catalog (example_tx 1 5) ''t1''
       ((example_entry ''t1'' 0 False None None)\<lparr>internal := True\<rparr>) [] empty_set
     = Some (Inl InternalException, empty_set)"
  using CreateEntry_validation [of example_catalog "''t1''"
      "(example_entry ''t1'' 0 False None None)\<lparr>internal := True\<rparr>" "example_tx 1 5" "[]" empty_set]
  by (simp add: example_catalog_def example_entry_def)

section \<open>AlterEntry\<close>

lemma GetEntryInternal_live:
  assumes "Map_GetEntry s nm = Some entry" "lookup (heap s) entry = Some e"
    "\<not> HasConflict catalog tx (timestamp e)" "\<not> deleted e"
  shows "GetEntryInternal catalog tx nm s = (Inr (Some entry), s)"
  using assms by (simp add: GetEntryInternal_def GetEntryInternal_entry_def bindE_def ret_def)

lemma GetEntry_found_live:
  assumes "GetEntry_found tx d s = Some (Inr (Some oe), s')"
  shows "\<exists>ce. GetEntryForTransaction (heap s) tx d = Some (Inr oe) \<and>
           lookup (heap s) oe = Some ce \<and> \<not> deleted ce \<and> s' = s"
  using assms
  by (auto simp: GetEntry_found_def monad_defs split: option.splits sum.splits if_splits)

text \<open>
  C9. When the name resolves, without conflict, to a live entry that may be altered, a client
  context is present and the entry's own \<open>AlterEntry\<close> declines by returning no replacement,
  \<open>AlterEntry\<close> returns true and the state of the set is the state before the call: no
  version is published, the chain of the name is as before and the undo buffer is unchanged.
\<close>

theorem AlterEntry_declined:
  assumes "Map_GetEntry s nm = Some entry" "lookup (heap s) entry = Some e"
    "\<not> HasConflict catalog tx (timestamp e)" "\<not> deleted e"
    "allow_internal alter_info \<or> \<not> internal e"
    "client_context tx \<noteq> None"
    "EntryAlterEntry catalog e alter_info = Inr None"
  shows "AlterEntry catalog tx nm alter_info s = Some (Inr True, s)"
  using GetEntryInternal_live [OF assms(1-4)] assms(2,5-7)
  by (auto simp: AlterEntry_def bindP_def)

theorem AlterEntry_declined_witness:
  "Map_GetEntry two_tables_set ''t1'' = Some 0
   \<and> lookup (heap two_tables_set) 0 = Some (example_entry ''t1'' 3 False None None)
   \<and> \<not> HasConflict example_catalog (example_tx 1 5) 3
   \<and> EntryAlterEntry example_catalog (example_entry ''t1'' 3 False None None)
        \<lparr>allow_internal = False, column_name = ''c''\<rparr> = Inr None
   \<and> AlterEntry example_catalog (example_tx 1 5) ''t1''
        \<lparr>allow_internal = False, column_name = ''c''\<rparr> two_tables_set
      = Some (Inr True, two_tables_set)"
proof -
  have a: "Map_GetEntry two_tables_set ''t1'' = Some 0"
    by (simp add: eval_defs)
  have b: "lookup (heap two_tables_set) 0 = Some (example_entry ''t1'' 3 False None None)"
    by (simp add: eval_defs)
  have c: "\<not> HasConflict example_catalog (example_tx 1 5)
             (timestamp (example_entry ''t1'' 3 False None None))"
    by (simp add: eval_defs)
  have d: "\<not> deleted (example_entry ''t1'' 3 False None None)"
    by (simp add: example_entry_def)
  have e: "allow_internal \<lparr>allow_internal = False, column_name = ''c''\<rparr>
           \<or> \<not> internal (example_entry ''t1'' 3 False None None)"
    by (simp add: example_entry_def)
  have f: "client_context (example_tx 1 5) \<noteq> None"
    by (simp add: example_tx_def)
  have g: "EntryAlterEntry example_catalog (example_entry ''t1'' 3 False None None)
        \<lparr>allow_internal = False, column_name = ''c''\<rparr> = Inr None"
    by (simp add: example_catalog_def)
  show ?thesis
    using AlterEntry_declined [OF a b c d e f g] a b c g
    by (simp add: example_entry_def)
qed

text \<open>
  A set with the one table \<open>t1\<close>, committed at time 3, and a catalog whose entries answer an
  alter request by a copy of themselves renamed to \<open>t2\<close> and whose default generator knows
  \<open>t2\<close>.
\<close>

definition one_table_set :: CatalogSet where
  "one_table_set =
     \<lparr>heap = [Some (example_entry ''t1'' 3 False None None)],
      entries = [(''t1'', 0)], created_all_entries = False, undo_buffer = [], events = []\<rparr>"

definition defaults_catalog :: Catalog where
  "defaults_catalog =
     renaming_catalog\<lparr>defaults :=
       Some (\<lambda>_ nm. if Lower nm = ''t2'' then Some (example_entry ''t2'' 0 False None None)
                     else None)\<rparr>"

text \<open>
  C5, as stated, fails when the destination name has no chain in the set and resolves through
  the default generator. The rename looks the destination name up in the map only, finds no
  chain, and goes on as for a free name. In \<open>one_table_set\<close> the name \<open>t2\<close> has no chain and
  \<open>GetEntry\<close> resolves it to the live default entry; the rename of \<open>t1\<close> to \<open>t2\<close> returns true,
  with no call of \<open>UndoAlter\<close>: it puts a \<open>RENAMED_ENTRY\<close> tombstone on the chain of \<open>t1\<close>,
  creates the default entry of \<open>t2\<close> and publishes the renamed version above it.
\<close>

theorem AlterEntry_rename_collision_counterexample:
  "Map_GetEntry one_table_set ''t2'' = None
   \<and> GetEntry defaults_catalog (example_tx 1 5) ''t2'' one_table_set =
       Some (Inr (Some 1),
             one_table_set\<lparr>heap := [Some (example_entry ''t1'' 3 False None None),
                                      Some (example_entry ''t2'' 0 False None None)],
                            entries := [(''t2'', 1), (''t1'', 0)]\<rparr>)
   \<and> EntryAlterEntry defaults_catalog (example_entry ''t1'' 3 False None None)
        \<lparr>allow_internal = False, column_name = ''c''\<rparr>
      = Inr (Some (example_entry ''t2'' 3 False None None))
   \<and> AlterEntry defaults_catalog (example_tx 1 5) ''t1''
        \<lparr>allow_internal = False, column_name = ''c''\<rparr> one_table_set =
       Some (Inr True,
         \<lparr>heap = [Some (example_entry ''t1'' 3 False None (Some 1)),
                  Some ((example_entry ''t1'' 4611686018427388001 True (Some 0) None)
                          \<lparr>type := RENAMED_ENTRY\<rparr>),
                  Some (example_entry ''t2'' 0 False None (Some 3)),
                  Some (example_entry ''t2'' 4611686018427388001 False (Some 2) None)],
          entries = [(''t2'', 3), (''t1'', 1)], created_all_entries = False,
          undo_buffer = [(1, 0, None),
                         (1, 2, Some \<lparr>allow_internal = False, column_name = ''c''\<rparr>)],
          events = [EvAddObject ((example_entry ''t2'' 4611686018427388001 False None None)
                                   \<lparr>type := RENAMED_ENTRY\<rparr>),
                    EvAlterObject 0 3]\<rparr>)"
  by (simp add: one_table_set_def defaults_catalog_def eval_defs)

text \<open>
  C5, amended. When an alter changes the name and the set holds a chain for the new name that
  resolves, for this snapshot, to a version that is not deleted, \<open>AlterEntry\<close> calls
  \<open>UndoAlter\<close> on the source entry and raises \<open>CatalogException\<close>. The heap, the map and the
  undo buffer are those before the call: no version is published under the source or the
  destination name.
\<close>

theorem AlterEntry_rename_collision:
  assumes "Map_GetEntry s nm = Some entry" "lookup (heap s) entry = Some e"
    "\<not> HasConflict catalog tx (timestamp e)" "\<not> deleted e"
    "allow_internal alter_info \<or> \<not> internal e"
    "client_context tx \<noteq> None"
    "EntryAlterEntry catalog e alter_info = Inr (Some val)"
    "\<not> CIEquals (name val) (name e)"
    "Map_GetEntry s (name val) = Some d"
    "GetEntry catalog tx (name val) s = Some (Inr (Some oe), s')"
  shows "AlterEntry catalog tx nm alter_info s =
           Some (Inl CatalogException, s\<lparr>events := events s @ [EvUndoAlter entry]\<rparr>)"
proof -
  from assms(9,10) have "GetEntry_found tx d s = Some (Inr (Some oe), s')"
    by (simp add: GetEntry_def)
  then obtain ce where w: "GetEntryForTransaction (heap s) tx d = Some (Inr oe)"
    "lookup (heap s) oe = Some ce" "\<not> deleted ce"
    using GetEntry_found_live by blast
  have r: "AlterEntry_rename catalog tx entry (name e) (val\<lparr>timestamp := transaction_id tx\<rparr>)
      alter_info s = Some (Inl CatalogException, s\<lparr>events := events s @ [EvUndoAlter entry]\<rparr>)"
    using assms(9) w
    by (simp add: AlterEntry_rename_def bindP_def bindE_def log_event_def throw_def)
  show ?thesis
    using GetEntryInternal_live [OF assms(1-4)] assms(2,5-8) r
    by (auto simp: AlterEntry_def bindP_def Let_def CIEquals_def)
qed

theorem AlterEntry_rename_collision_witness:
  "Map_GetEntry two_tables_set ''t1'' = Some 0
   \<and> lookup (heap two_tables_set) 0 = Some (example_entry ''t1'' 3 False None None)
   \<and> EntryAlterEntry renaming_catalog (example_entry ''t1'' 3 False None None)
        \<lparr>allow_internal = False, column_name = ''c''\<rparr>
      = Inr (Some (example_entry ''t2'' 3 False None None))
   \<and> \<not> CIEquals ''t2'' ''t1''
   \<and> GetEntry renaming_catalog (example_tx 1 5) ''t2'' two_tables_set
      = Some (Inr (Some 1), two_tables_set)
   \<and> AlterEntry renaming_catalog (example_tx 1 5) ''t1''
        \<lparr>allow_internal = False, column_name = ''c''\<rparr> two_tables_set
      = Some (Inl CatalogException, two_tables_set\<lparr>events := [EvUndoAlter 0]\<rparr>)"
proof -
  let ?e = "example_entry ''t1'' 3 False None None"
  let ?v = "example_entry ''t2'' 3 False None None"
  let ?i = "\<lparr>allow_internal = False, column_name = ''c''\<rparr>"
  have a: "Map_GetEntry two_tables_set ''t1'' = Some 0"
    by (simp add: eval_defs)
  have b: "lookup (heap two_tables_set) 0 = Some ?e"
    by (simp add: eval_defs)
  have c: "\<not> HasConflict renaming_catalog (example_tx 1 5) (timestamp ?e)"
    by (simp add: eval_defs)
  have d: "\<not> deleted ?e"
    by (simp add: example_entry_def)
  have e: "allow_internal ?i \<or> \<not> internal ?e"
    by (simp add: example_entry_def)
  have f: "client_context (example_tx 1 5) \<noteq> None"
    by (simp add: example_tx_def)
  have g: "EntryAlterEntry renaming_catalog ?e ?i = Inr (Some ?v)"
    by (simp add: renaming_catalog_def example_catalog_def example_entry_def)
  have h: "\<not> CIEquals (name ?v) (name ?e)"
    by (simp add: eval_defs)
  have i: "Map_GetEntry two_tables_set (name ?v) = Some 1"
    by (simp add: eval_defs)
  have j: "GetEntry renaming_catalog (example_tx 1 5) (name ?v) two_tables_set
      = Some (Inr (Some 1), two_tables_set)"
    by (simp add: eval_defs)
  have k: "events two_tables_set = []"
    by (simp add: two_tables_set_def)
  show ?thesis
    using AlterEntry_rename_collision [OF a b c d e f g h i j] a b g h j
    by (simp add: k example_entry_def)
qed

section \<open>CleanupEntry\<close>

definition no_null :: "'a result \<Rightarrow> bool" where
  "no_null r = (fst r \<noteq> Inl NullDereference)"

lemma no_null_bindE:
  assumes "no_null (m s)" "\<And>x s'. no_null (f x s')"
  shows "no_null (bindE m f s)"
  using assms by (auto simp: no_null_def bindE_def split: prod.splits sum.splits)

lemma no_null_prims [simp]:
  "no_null (ret x s)" "no_null (get a s)" "no_null (modify a g s)" "no_null (destroy a s)"
  "no_null (throw InternalException s)" "no_null (throw DanglingPointer s)"
  by (auto simp: no_null_def ret_def get_def modify_def destroy_def throw_def split: option.splits)

lemma no_null_SetChild: "no_null (SetChild a c s)"
  unfolding SetChild_def
  by (intro no_null_bindE) (auto split: option.splits)

lemma no_null_TakeChild: "no_null (TakeChild a s)"
  unfolding TakeChild_def
  by (intro no_null_bindE) (auto split: option.splits intro!: no_null_bindE)

lemma no_null_Map_DropEntry: "no_null (Map_DropEntry a s)"
  unfolding Map_DropEntry_def
  by (intro no_null_bindE)
     (auto split: option.splits intro!: no_null_bindE no_null_TakeChild no_null_SetChild)

lemma Map_DropEntry_interior_leaf:
  assumes "lookup (heap s) entry = Some e" "child e = None" "parent e = Some p"
    "lookup (heap s) p = Some pe" "child pe = Some entry" "Map_GetEntry s (name e) = Some top_entry"
  shows "Map_DropEntry entry s =
           (Inr (), s\<lparr>heap := (heap s)[entry := None, p := Some (pe\<lparr>child := None\<rparr>)]\<rparr>)"
proof -
  from assms have ne: "p \<noteq> entry" by auto
  show ?thesis
    using assms ne lookup_length [OF assms(1)] lookup_length [OF assms(4)]
    by (simp add: Map_DropEntry_def TakeChild_def SetChild_def destroy_def monad_defs
        destroy_chain_leaf lookup_update)
qed

lemma Map_DropEntry_head_leaf:
  assumes "lookup (heap s) p = Some pe" "child pe = None" "parent pe = None"
    "Map_GetEntry s (name pe) = Some p"
  shows "Map_DropEntry p s =
           (Inr (), s\<lparr>heap := (heap s)[p := None],
                       entries := AList.delete (Lower (name pe)) (entries s)\<rparr>)"
  using assms lookup_length [OF assms(1)]
  by (simp add: Map_DropEntry_def TakeChild_def destroy_def monad_defs
      destroy_chain_leaf lookup_update)

lemma Map_DropEntry_head_child:
  assumes "lookup (heap s) p = Some pe" "child pe = Some c" "parent pe = None"
    "lookup (heap s) c = Some ce" "c \<noteq> p" "Map_GetEntry s (name pe) = Some p"
  shows "Map_DropEntry p s =
           (Inr (), s\<lparr>heap := (heap s)[c := Some (ce\<lparr>parent := None\<rparr>), p := None],
                       entries := AList.update (Lower (name pe)) c (entries s)\<rparr>)"
  using assms lookup_length [OF assms(1)] lookup_length [OF assms(4)]
  by (simp add: Map_DropEntry_def TakeChild_def destroy_def monad_defs Map_GetEntry_def
      destroy_chain_leaf [where e = "pe\<lparr>child := None\<rparr>"] lookup_update)

lemma CleanupEntry_leaf:
  assumes "lookup (heap s) entry = Some e" "child e = None" "parent e = Some p"
    "lookup (heap s) p = Some pe" "child pe = Some entry"
    "Map_GetEntry s (name e) = Some top_entry"
    "deleted pe \<and> parent pe = None \<longrightarrow> Map_GetEntry s (name pe) = Some p"
  shows "CleanupEntry entry s =
     (Inr (),
      if deleted pe \<and> parent pe = None
      then s\<lparr>heap := (heap s)[entry := None, p := None],
             entries := AList.delete (Lower (name pe)) (entries s)\<rparr>
      else s\<lparr>heap := (heap s)[entry := None, p := Some (pe\<lparr>child := None\<rparr>)]\<rparr>)"
proof -
  let ?s1 = "s\<lparr>heap := (heap s)[entry := None, p := Some (pe\<lparr>child := None\<rparr>)]\<rparr>"
  have d: "Map_DropEntry entry s = (Inr (), ?s1)"
    using assms(1-6) by (rule Map_DropEntry_interior_leaf)
  have l: "lookup (heap ?s1) p = Some (pe\<lparr>child := None\<rparr>)"
    using lookup_length [OF assms(4)] by (simp add: lookup_update)
  have "Map_DropEntry p ?s1 =
      (Inr (), ?s1\<lparr>heap := (heap ?s1)[p := None],
                    entries := AList.delete (Lower (name (pe\<lparr>child := None\<rparr>))) (entries ?s1)\<rparr>)"
    if "parent pe = None" "Map_GetEntry s (name pe) = Some p"
    using that by (intro Map_DropEntry_head_leaf [OF l]) (simp_all add: Map_GetEntry_def)
  then show ?thesis
    using assms(1,3,7) d l
    by (auto simp: CleanupEntry_def bindE_def ret_def)
qed

text \<open>
  C10. \<open>CleanupEntry\<close> dereferences the parent link of its entry first: on an entry without a
  parent (a chain head) this is the dereference of a missing link, and nothing else is done.
  On an entry with a parent, neither the unlink nor the removal of the parent dereferences a
  missing link. For the oldest version of a chain, below a parent that holds it as its child,
  the call succeeds: the entry is unlinked and freed, and a parent that is a tombstone and the
  head of its chain is unlinked and freed too, with the name's entry in the map.
\<close>

theorem CleanupEntry_needs_parent:
  assumes "lookup (heap s) entry = Some e"
  shows "(parent e = None \<longrightarrow> CleanupEntry entry s = (Inl NullDereference, s))
       \<and> (parent e \<noteq> None \<longrightarrow> fst (CleanupEntry entry s) \<noteq> Inl NullDereference)
       \<and> (\<forall>p pe. parent e = Some p \<and> child e = None \<and> lookup (heap s) p = Some pe \<and>
            child pe = Some entry \<and> Map_GetEntry s (name e) \<noteq> None \<and>
            (deleted pe \<and> parent pe = None \<longrightarrow> Map_GetEntry s (name pe) = Some p) \<longrightarrow>
            CleanupEntry entry s =
              (Inr (),
               if deleted pe \<and> parent pe = None
               then s\<lparr>heap := (heap s)[entry := None, p := None],
                      entries := AList.delete (Lower (name pe)) (entries s)\<rparr>
               else s\<lparr>heap := (heap s)[entry := None, p := Some (pe\<lparr>child := None\<rparr>)]\<rparr>))"
proof -
  have "CleanupEntry entry s = (Inl NullDereference, s)" if "parent e = None"
    using assms that by (simp add: CleanupEntry_def bindE_def throw_def)
  moreover have "no_null (CleanupEntry entry s)" if "parent e \<noteq> None"
  proof -
    from that obtain p where p: "parent e = Some p" by auto
    have "no_null (bindE (Map_DropEntry entry) (\<lambda>_.
            bindE (get p) (\<lambda>pe.
              if deleted pe \<and> child pe = None \<and> parent pe = None
              then Map_DropEntry p
              else ret ())) s)"
      by (intro no_null_bindE no_null_Map_DropEntry) (auto intro: no_null_Map_DropEntry)
    then show ?thesis
      using assms p by (simp add: CleanupEntry_def bindE_def [where m = "get entry"])
  qed
  moreover have "CleanupEntry entry s =
              (Inr (),
               if deleted pe \<and> parent pe = None
               then s\<lparr>heap := (heap s)[entry := None, p := None],
                      entries := AList.delete (Lower (name pe)) (entries s)\<rparr>
               else s\<lparr>heap := (heap s)[entry := None, p := Some (pe\<lparr>child := None\<rparr>)]\<rparr>)"
    if "parent e = Some p" "child e = None" "lookup (heap s) p = Some pe" "child pe = Some entry"
      "Map_GetEntry s (name e) \<noteq> None"
      "deleted pe \<and> parent pe = None \<longrightarrow> Map_GetEntry s (name pe) = Some p" for p pe
  proof -
    from that(5) obtain top_entry where "Map_GetEntry s (name e) = Some top_entry" by auto
    from CleanupEntry_leaf [OF assms that(2,1,3,4) this that(6)] show ?thesis .
  qed
  ultimately show ?thesis
    unfolding no_null_def by blast
qed

theorem CleanupEntry_needs_parent_witness:
  "lookup (heap dropped_set) 1 =
     Some ((example_entry ''t1'' 7 True (Some 0) None)\<lparr>type := DELETED_ENTRY\<rparr>)
   \<and> CleanupEntry 1 dropped_set = (Inl NullDereference, dropped_set)
   \<and> lookup (heap dropped_set) 0 = Some (example_entry ''t1'' 5 False None (Some 1))
   \<and> Map_GetEntry dropped_set ''t1'' = Some 1
   \<and> CleanupEntry 0 dropped_set = (Inr (), dropped_set\<lparr>heap := [None, None], entries := []\<rparr>)"
proof -
  let ?t = "(example_entry ''t1'' 7 True (Some 0) None)\<lparr>type := DELETED_ENTRY\<rparr>"
  let ?e = "example_entry ''t1'' 5 False None (Some 1)"
  have a: "lookup (heap dropped_set) 1 = Some ?t"
    by (simp add: eval_defs)
  have b: "lookup (heap dropped_set) 0 = Some ?e"
    by (simp add: eval_defs)
  have c: "Map_GetEntry dropped_set ''t1'' = Some 1"
    by (simp add: eval_defs)
  have e: "(heap dropped_set)[0 := None, 1 := None] = [None, None]"
    "AList.delete (Lower ''t1'') (entries dropped_set) = []"
    by (simp_all add: eval_defs)
  have f: "parent ?e = Some 1 \<and> child ?e = None \<and> lookup (heap dropped_set) 1 = Some ?t \<and>
      child ?t = Some 0 \<and> Map_GetEntry dropped_set (name ?e) \<noteq> None \<and>
      (deleted ?t \<and> parent ?t = None \<longrightarrow> Map_GetEntry dropped_set (name ?t) = Some 1)"
    using a c by (simp add: example_entry_def)
  have "CleanupEntry 0 dropped_set = (Inr (), dropped_set\<lparr>heap := [None, None], entries := []\<rparr>)"
    using CleanupEntry_needs_parent [OF b, THEN conjunct2, THEN conjunct2, rule_format, OF f] e
    by (simp add: example_entry_def dropped_set_def)
  moreover have "CleanupEntry 1 dropped_set = (Inl NullDereference, dropped_set)"
    using CleanupEntry_needs_parent [OF a, THEN conjunct1] by (simp add: example_entry_def)
  ultimately show ?thesis
    using a b c by simp
qed

section \<open>CreateEntry\<close>

text \<open>
  Notions for the statements. \<open>declines\<close>: \<open>CreateDefaultEntry\<close> has nothing to materialize
  for the name (the set has no default generator, or the generator has created all its
  entries, or the transaction has no client context, or the generator makes no entry of this
  name). \<open>pushed\<close>: what one call of \<open>PushCatalogEntry\<close> adds to the undo buffers.
  \<open>placeholder\<close>: the dummy node of \<open>CreateEntry\<close>, linked below its parent.
\<close>

definition declines :: "Catalog \<Rightarrow> CatalogTransaction \<Rightarrow> string \<Rightarrow> CatalogSet \<Rightarrow> bool" where
  "declines catalog tx nm s =
     (case defaults catalog of
        None \<Rightarrow> True
      | Some generator \<Rightarrow>
          created_all_entries s \<or>
          (case client_context tx of None \<Rightarrow> True | Some ctx \<Rightarrow> generator ctx nm = None))"

lemma declines_frame:
  "created_all_entries s' = created_all_entries s \<Longrightarrow>
   client_context tx' = client_context tx \<Longrightarrow>
   declines catalog tx' nm s' = declines catalog tx nm s"
  by (auto simp: declines_def split: option.splits)

definition pushed ::
  "CatalogTransaction \<Rightarrow> addr \<Rightarrow> AlterInfo option \<Rightarrow> (nat \<times> addr \<times> AlterInfo option) list" where
  "pushed tx a extra = (case transaction tx of None \<Rightarrow> [] | Some t \<Rightarrow> [(t, a, extra)])"

definition placeholder :: "string \<Rightarrow> addr \<Rightarrow> CatalogEntry" where
  "placeholder nm p =
     \<lparr>type = INVALID, name = nm, internal = False, temporary = False, deleted = True,
      timestamp = 0, child = None, parent = Some p\<rparr>"

lemma Map_GetEntry_events [simp]:
  "Map_GetEntry (s\<lparr>events := x\<rparr>) nm = Map_GetEntry s nm"
  "Map_GetEntry (s\<lparr>undo_buffer := y\<rparr>) nm = Map_GetEntry s nm"
  by (simp_all add: Map_GetEntry_def)

lemma CreateDefaultEntry_declines:
  "declines catalog tx nm s \<Longrightarrow> CreateDefaultEntry catalog tx nm s = Some (Inr None, s)"
  by (subst CreateDefaultEntry.simps) (auto simp: declines_def split: option.splits)

lemma CreateEntry_publish_head:
  assumes "Map_GetEntry s (name val) = Some cur" "lookup (heap s) cur = Some ce"
  shows "CreateEntry_publish tx val s =
     (Inr True,
      s\<lparr>heap := (heap s)[cur := Some (ce\<lparr>parent := Some (length (heap s))\<rparr>)]
                 @ [Some (val\<lparr>child := Some cur, parent := None\<rparr>)],
        entries := AList.update (Lower (name val)) (length (heap s)) (entries s),
        undo_buffer := undo_buffer s @ pushed tx cur None\<rparr>)"
  using assms lookup_length [OF assms(2)]
  by (simp add: CreateEntry_publish_def Map_UpdateEntry_def SetChild_def PushCatalogEntry_def
      monad_defs Map_GetEntry_def lookup_append lookup_update list_update_append pushed_def
      split: option.splits)

lemma CreateEntry_fresh:
  assumes "Map_GetEntry s nm = None" "CreateEntry_checks catalog nm val = None"
    "AddObject catalog tx (val\<lparr>timestamp := transaction_id tx\<rparr>) deps = None"
    "declines catalog tx nm s" "CIEquals (name val) nm"
  shows "CreateEntry catalog tx nm val deps s =
     Some (Inr True,
       s\<lparr>heap := heap s @
              [Some (placeholder nm (Suc (length (heap s)))),
               Some (val\<lparr>timestamp := transaction_id tx, child := Some (length (heap s)),
                         parent := None\<rparr>)],
         entries := (Lower nm, Suc (length (heap s))) # entries s,
         undo_buffer := undo_buffer s @ pushed tx (length (heap s)) None,
         events := events s @ [EvAddObject (val\<lparr>timestamp := transaction_id tx\<rparr>)]\<rparr>)"
proof -
  let ?v = "val\<lparr>timestamp := transaction_id tx\<rparr>"
  let ?s0 = "s\<lparr>events := events s @ [EvAddObject ?v]\<rparr>"
  let ?d = "(InCatalogEntry INVALID nm)\<lparr>timestamp := 0, deleted := True\<rparr>"
  let ?s1 = "?s0\<lparr>heap := heap s @ [Some (?d\<lparr>child := None, parent := None\<rparr>)],
                  entries := (Lower nm, length (heap s)) # entries s\<rparr>"
  have d: "CreateDefaultEntry catalog tx nm ?s0 = Some (Inr None, ?s0)"
    using assms(4) by (intro CreateDefaultEntry_declines) (simp add: declines_frame [of ?s0 s tx tx])
  have a: "bindE (Map_AddEntry ?d) (\<lambda>_. CreateEntry_publish tx ?v) ?s0
             = CreateEntry_publish tx ?v ?s1"
    using assms(1)
    by (simp add: Map_AddEntry_def monad_defs lookup_append Map_GetEntry_def InCatalogEntry_def)
  have p: "CreateEntry_publish tx ?v ?s1 =
     (Inr True,
      ?s1\<lparr>heap := (heap ?s1)[length (heap s) :=
                 Some ((?d\<lparr>child := None, parent := None\<rparr>)\<lparr>parent := Some (length (heap ?s1))\<rparr>)]
                 @ [Some (?v\<lparr>child := Some (length (heap s)), parent := None\<rparr>)],
        entries := AList.update (Lower (name ?v)) (length (heap ?s1)) (entries ?s1),
        undo_buffer := undo_buffer ?s1 @ pushed tx (length (heap s)) None\<rparr>)"
    using assms(5)
    by (intro CreateEntry_publish_head) (simp_all add: Map_GetEntry_def CIEquals_def lookup_append)
  have c: "CreateEntry catalog tx nm val deps s = Some (CreateEntry_publish tx ?v ?s1)"
    using assms(1,2,3) d by (simp add: CreateEntry_def Let_def bindP_def a)
  show ?thesis
    unfolding c p using assms(5)
    by (simp add: CIEquals_def placeholder_def InCatalogEntry_def)
qed


lemma GetEntryForTransaction_stop:
  assumes "lookup h a = Some e" "child e = None \<or> UseTimestamp tx (timestamp e)"
  shows "GetEntryForTransaction h tx a = Some (Inr a)"
  using assms by (subst GetEntryForTransaction.simps) (auto split: option.splits)

lemma GetEntryForTransaction_step:
  assumes "lookup h a = Some e" "child e = Some c" "\<not> UseTimestamp tx (timestamp e)"
  shows "GetEntryForTransaction h tx a = GetEntryForTransaction h tx c"
  using assms by (subst GetEntryForTransaction.simps) simp

definition created_set :: CatalogSet where
  "created_set =
     \<lparr>heap = [Some (placeholder ''t1'' 1),
              Some (example_entry ''t1'' 4611686018427388001 False (Some 0) None)],
      entries = [(''t1'', 1)], created_all_entries = False, undo_buffer = [(1, 0, None)],
      events = [EvAddObject (example_entry ''t1'' 4611686018427388001 False None None)]\<rparr>"

lemma example_hyps:
  "Map_GetEntry empty_set ''t1'' = None"
  "CreateEntry_checks example_catalog ''t1'' (example_entry nm 0 False None None) = None"
  "AddObject example_catalog tx v deps = None"
  "declines example_catalog tx nm s"
  "CIEquals (name (example_entry ''t1'' 0 False None None)) ''t1''"
  by (simp_all add: eval_defs declines_def)

text \<open>
  C4. When \<open>CreateEntry\<close> runs on a name without a chain, the default generator has nothing to
  materialize, the checks pass, the dependency manager accepts the candidate and the candidate
  carries the name, then \<open>CreateEntry\<close> returns true and the new chain has two nodes: at the
  bottom a placeholder of kind \<open>INVALID\<close> with timestamp 0 and \<open>deleted = true\<close>, above it the
  candidate, stamped with the transaction id, as head. The rest of the heap and of the map is
  as before. For every transaction that cannot use the candidate's timestamp, the walk from
  the head ends at the placeholder and \<open>GetEntry\<close> returns absent.
\<close>

theorem CreateEntry_placeholder:
  assumes "Map_GetEntry s nm = None" "CreateEntry_checks catalog nm val = None"
    "AddObject catalog tx (val\<lparr>timestamp := transaction_id tx\<rparr>) deps = None"
    "declines catalog tx nm s" "CIEquals (name val) nm"
  shows "let n = length (heap s);
             s1 = s\<lparr>heap := heap s @
                      [Some (placeholder nm (Suc n)),
                       Some (val\<lparr>timestamp := transaction_id tx, child := Some n,
                                 parent := None\<rparr>)],
                     entries := (Lower nm, Suc n) # entries s,
                     undo_buffer := undo_buffer s @ pushed tx n None,
                     events := events s @ [EvAddObject (val\<lparr>timestamp := transaction_id tx\<rparr>)]\<rparr>
         in CreateEntry catalog tx nm val deps s = Some (Inr True, s1)
            \<and> Map_GetEntry s1 nm = Some (Suc n)
            \<and> (\<forall>tx'. \<not> UseTimestamp tx' (transaction_id tx) \<longrightarrow>
                  GetEntryForTransaction (heap s1) tx' (Suc n) = Some (Inr n)
                  \<and> GetEntry catalog tx' nm s1 = Some (Inr None, s1))"
proof -
  define n where "n = length (heap s)"
  define s1 where "s1 = s\<lparr>heap := heap s @
                      [Some (placeholder nm (Suc n)),
                       Some (val\<lparr>timestamp := transaction_id tx, child := Some n,
                                 parent := None\<rparr>)],
                     entries := (Lower nm, Suc n) # entries s,
                     undo_buffer := undo_buffer s @ pushed tx n None,
                     events := events s @ [EvAddObject (val\<lparr>timestamp := transaction_id tx\<rparr>)]\<rparr>"
  have c: "CreateEntry catalog tx nm val deps s = Some (Inr True, s1)"
    unfolding s1_def n_def using assms by (rule CreateEntry_fresh)
  have m: "Map_GetEntry s1 nm = Some (Suc n)"
    by (simp add: s1_def Map_GetEntry_def)
  have l1: "lookup (heap s1) (Suc n) =
      Some (val\<lparr>timestamp := transaction_id tx, child := Some n, parent := None\<rparr>)"
    by (simp add: s1_def n_def lookup_def nth_append)
  have l0: "lookup (heap s1) n = Some (placeholder nm (Suc n))"
    by (simp add: s1_def n_def lookup_def nth_append)
  have "GetEntryForTransaction (heap s1) tx' (Suc n) = Some (Inr n)
        \<and> GetEntry catalog tx' nm s1 = Some (Inr None, s1)"
    if "\<not> UseTimestamp tx' (transaction_id tx)" for tx'
  proof -
    have "GetEntryForTransaction (heap s1) tx' (Suc n) = GetEntryForTransaction (heap s1) tx' n"
      using that by (intro GetEntryForTransaction_step [OF l1]) simp_all
    also have "\<dots> = Some (Inr n)"
      by (intro GetEntryForTransaction_stop [OF l0]) (simp add: placeholder_def)
    finally have w: "GetEntryForTransaction (heap s1) tx' (Suc n) = Some (Inr n)" .
    then show ?thesis
      using m l0 by (simp add: GetEntry_def GetEntry_found_def bindE_def ret_def placeholder_def)
  qed
  with c m show ?thesis
    unfolding Let_def s1_def [symmetric] n_def [symmetric] by blast
qed

theorem CreateEntry_placeholder_witness:
  "Map_GetEntry empty_set ''t1'' = None
   \<and> declines example_catalog (example_tx 1 5) ''t1'' empty_set
   \<and> \<not> UseTimestamp (example_tx 2 5) (transaction_id (example_tx 1 5))
   \<and> CreateEntry example_catalog (example_tx 1 5) ''t1'' (example_entry ''t1'' 0 False None None) []
        empty_set = Some (Inr True, created_set)
   \<and> GetEntryForTransaction (heap created_set) (example_tx 2 5) 1 = Some (Inr 0)
   \<and> GetEntry example_catalog (example_tx 2 5) ''t1'' created_set = Some (Inr None, created_set)"
proof -
  let ?v = "example_entry ''t1'' 0 False None None"
  have s: "empty_set\<lparr>heap := heap empty_set @
                      [Some (placeholder ''t1'' (Suc (length (heap empty_set)))),
                       Some (?v\<lparr>timestamp := transaction_id (example_tx 1 5),
                                child := Some (length (heap empty_set)), parent := None\<rparr>)],
                     entries := (Lower ''t1'', Suc (length (heap empty_set))) # entries empty_set,
                     undo_buffer := undo_buffer empty_set @
                        pushed (example_tx 1 5) (length (heap empty_set)) None,
                     events := events empty_set @
                        [EvAddObject (?v\<lparr>timestamp := transaction_id (example_tx 1 5)\<rparr>)]\<rparr>
           = created_set"
    by (simp add: created_set_def pushed_def eval_defs)
  have u: "\<not> UseTimestamp (example_tx 2 5) (transaction_id (example_tx 1 5))"
    by (simp add: eval_defs)
  note w = CreateEntry_placeholder [OF example_hyps(1,2,3,4,5), of "example_tx 1 5" "[]",
      unfolded Let_def s]
  from w have "\<forall>tx'. \<not> UseTimestamp tx' (transaction_id (example_tx 1 5)) \<longrightarrow>
      GetEntryForTransaction (heap created_set) tx' (Suc (length (heap empty_set))) =
        Some (Inr (length (heap empty_set)))
      \<and> GetEntry example_catalog tx' ''t1'' created_set = Some (Inr None, created_set)"
    by blast
  from this [rule_format, OF u] w u example_hyps(1,4) show ?thesis
    by (simp add: empty_set_def)
qed

lemma GetEntry_own_head:
  assumes "Map_GetEntry s nm = Some a" "lookup (heap s) a = Some e"
    "timestamp e = transaction_id tx" "\<not> deleted e"
  shows "GetEntry catalog tx nm s = Some (Inr (Some a), s)"
proof -
  have "GetEntryForTransaction (heap s) tx a = Some (Inr a)"
    using assms(3) by (intro GetEntryForTransaction_stop [OF assms(2)]) (simp add: UseTimestamp_def)
  then show ?thesis
    using assms by (simp add: GetEntry_def GetEntry_found_def bindE_def ret_def)
qed

lemma DropEntryInternal_live:
  assumes "Map_GetEntry s nm = Some a" "lookup (heap s) a = Some e"
    "\<not> HasConflict catalog tx (timestamp e)" "\<not> deleted e"
    "internal e \<longrightarrow> allow" "CIEquals (name e) nm"
  shows "DropEntryInternal catalog tx nm allow ty s =
     (Inr True,
      s\<lparr>heap := (heap s)[a := Some (e\<lparr>parent := Some (length (heap s))\<rparr>)]
                 @ [Some ((InCatalogEntry ty (name e))
                            \<lparr>timestamp := transaction_id tx, deleted := True, child := Some a\<rparr>)],
        entries := AList.update (Lower nm) (length (heap s)) (entries s),
        undo_buffer := undo_buffer s @ pushed tx a None\<rparr>)"
proof -
  let ?v = "(InCatalogEntry ty (name e))\<lparr>timestamp := transaction_id tx, deleted := True\<rparr>"
  have n: "name ?v = name e" by (simp add: InCatalogEntry_def)
  have m: "Map_GetEntry s (name ?v) = Some a"
    using assms(1,6) by (simp add: n Map_GetEntry_def CIEquals_def)
  have "DropEntryInternal catalog tx nm allow ty s = CreateEntry_publish tx ?v s"
    using GetEntryInternal_live [OF assms(1-4)] assms(2,5)
    by (auto simp: DropEntryInternal_def CreateEntry_publish_def bindE_def)
  also note CreateEntry_publish_head [OF m assms(2)]
  finally show ?thesis
    using assms(6) by (simp add: InCatalogEntry_def CIEquals_def)
qed

lemma DropEntry_own_head:
  assumes "Map_GetEntry s nm = Some a" "lookup (heap s) a = Some e"
    "timestamp e = transaction_id tx" "\<not> deleted e"
    "\<not> HasConflict catalog tx (transaction_id tx)"
    "internal e \<longrightarrow> allow" "CIEquals (name e) nm" "DropObject catalog tx e cascade = None"
  shows "DropEntry catalog tx nm cascade allow s =
     Some (Inr True,
      s\<lparr>heap := (heap s)[a := Some (e\<lparr>parent := Some (length (heap s))\<rparr>)]
                 @ [Some ((InCatalogEntry DELETED_ENTRY (name e))
                            \<lparr>timestamp := transaction_id tx, deleted := True, child := Some a\<rparr>)],
        entries := AList.update (Lower nm) (length (heap s)) (entries s),
        undo_buffer := undo_buffer s @ pushed tx a None,
        events := events s @ [EvDropObject a]\<rparr>)"
proof -
  let ?s1 = "s\<lparr>events := events s @ [EvDropObject a]\<rparr>"
  have d: "DropDependencies catalog tx nm cascade allow s = Some (Inr True, ?s1)"
    using GetEntry_own_head [OF assms(1-4), of catalog] assms(2,6,8)
    by (auto simp: DropDependencies_def bindP_def bindE_def log_event_def ret_def)
  have "DropEntryInternal catalog tx nm allow DELETED_ENTRY ?s1 =
     (Inr True,
      ?s1\<lparr>heap := (heap ?s1)[a := Some (e\<lparr>parent := Some (length (heap ?s1))\<rparr>)]
                 @ [Some ((InCatalogEntry DELETED_ENTRY (name e))
                            \<lparr>timestamp := transaction_id tx, deleted := True, child := Some a\<rparr>)],
        entries := AList.update (Lower nm) (length (heap ?s1)) (entries ?s1),
        undo_buffer := undo_buffer ?s1 @ pushed tx a None\<rparr>)"
    using assms by (intro DropEntryInternal_live) simp_all
  with d show ?thesis
    by (simp add: DropEntry_def bindP_def)
qed

lemma CreateEntry_chain:
  assumes "CreateEntry_checks catalog nm val = None"
    "AddObject catalog tx (val\<lparr>timestamp := transaction_id tx\<rparr>) deps = None"
    "Map_GetEntry s nm = Some cur" "lookup (heap s) cur = Some ce" "CIEquals (name val) nm"
  shows "CreateEntry catalog tx nm val deps s =
     (if HasConflict catalog tx (timestamp ce)
      then Some (Inl TransactionException,
                 s\<lparr>events := events s @ [EvAddObject (val\<lparr>timestamp := transaction_id tx\<rparr>)]\<rparr>)
      else if \<not> deleted ce
      then Some (Inr False,
                 s\<lparr>events := events s @ [EvAddObject (val\<lparr>timestamp := transaction_id tx\<rparr>)]\<rparr>)
      else Some (Inr True,
                 s\<lparr>heap := (heap s)[cur := Some (ce\<lparr>parent := Some (length (heap s))\<rparr>)]
                            @ [Some (val\<lparr>timestamp := transaction_id tx, child := Some cur,
                                         parent := None\<rparr>)],
                   entries := AList.update (Lower nm) (length (heap s)) (entries s),
                   undo_buffer := undo_buffer s @ pushed tx cur None,
                   events := events s @ [EvAddObject (val\<lparr>timestamp := transaction_id tx\<rparr>)]\<rparr>))"
proof -
  let ?v = "val\<lparr>timestamp := transaction_id tx\<rparr>"
  let ?s0 = "s\<lparr>events := events s @ [EvAddObject ?v]\<rparr>"
  have m: "Map_GetEntry ?s0 (name ?v) = Some cur"
    using assms(3,5) by (simp add: Map_GetEntry_def CIEquals_def)
  have l: "lookup (heap ?s0) cur = Some ce"
    using assms(4) by simp
  note p = CreateEntry_publish_head [OF m l, of tx]
  show ?thesis
    using assms
    by (simp add: CreateEntry_def Let_def bindE_def throw_def ret_def p CIEquals_def)
qed


lemma Create_Drop_Create:
  assumes "Map_GetEntry s nm = None" "declines catalog tx nm s"
    "CreateEntry_checks catalog nm valA = None" "CreateEntry_checks catalog nm valB = None"
    "AddObject catalog tx (valA\<lparr>timestamp := transaction_id tx\<rparr>) depsA = None"
    "AddObject catalog tx (valB\<lparr>timestamp := transaction_id tx\<rparr>) depsB = None"
    "CIEquals (name valA) nm" "CIEquals (name valB) nm" "\<not> deleted valA" "\<not> deleted valB"
    "\<not> HasConflict catalog tx (transaction_id tx)" "internal valA \<longrightarrow> allow"
    "\<forall>e. DropObject catalog tx e cascade = None"
  shows "\<exists>s1 s2 s3.
           CreateEntry catalog tx nm valA depsA s = Some (Inr True, s1)
         \<and> DropEntry catalog tx nm cascade allow s1 = Some (Inr True, s2)
         \<and> CreateEntry catalog tx nm valB depsB s2 = Some (Inr True, s3)
         \<and> GetEntry catalog tx nm s3 = Some (Inr (Some (length (heap s) + 3)), s3)
         \<and> lookup (heap s3) (length (heap s) + 3) =
             Some (valB\<lparr>timestamp := transaction_id tx, child := Some (length (heap s) + 2),
                        parent := None\<rparr>)"
proof -
  define n where "n = length (heap s)"
  define vA where "vA = valA\<lparr>timestamp := transaction_id tx, child := Some n, parent := None\<rparr>"
  define tomb where "tomb = (InCatalogEntry DELETED_ENTRY (name vA))
      \<lparr>timestamp := transaction_id tx, deleted := True, child := Some (Suc n)\<rparr>"
  define vB where "vB = valB\<lparr>timestamp := transaction_id tx, child := Some (n + 2), parent := None\<rparr>"
  obtain s1 where c1: "CreateEntry catalog tx nm valA depsA s = Some (Inr True, s1)"
    and s1: "s1 = s\<lparr>heap := heap s @ [Some (placeholder nm (Suc n)), Some vA],
         entries := (Lower nm, Suc n) # entries s,
         undo_buffer := undo_buffer s @ pushed tx n None,
         events := events s @ [EvAddObject (valA\<lparr>timestamp := transaction_id tx\<rparr>)]\<rparr>"
    using CreateEntry_fresh [OF assms(1,3,5,2,7)] by (simp add: n_def vA_def)
  have m1: "Map_GetEntry s1 nm = Some (Suc n)"
    by (simp add: s1 Map_GetEntry_def)
  have l1: "lookup (heap s1) (Suc n) = Some vA"
    by (simp add: s1 n_def lookup_def nth_append)
  have len1: "length (heap s1) = n + 2"
    by (simp add: s1 n_def)
  have pA: "timestamp vA = transaction_id tx" "\<not> deleted vA" "internal vA \<longrightarrow> allow"
    "CIEquals (name vA) nm" "DropObject catalog tx vA cascade = None"
    using assms(7,9,12,13) by (simp_all add: vA_def)
  obtain s2 where c2: "DropEntry catalog tx nm cascade allow s1 = Some (Inr True, s2)"
    and s2: "s2 = s1\<lparr>heap := (heap s1)[Suc n := Some (vA\<lparr>parent := Some (n + 2)\<rparr>)] @ [Some tomb],
        entries := AList.update (Lower nm) (n + 2) (entries s1),
        undo_buffer := undo_buffer s1 @ pushed tx (Suc n) None,
        events := events s1 @ [EvDropObject (Suc n)]\<rparr>"
    using DropEntry_own_head [OF m1 l1 pA(1,2) assms(11) pA(3,4,5)]
    by (simp add: len1 tomb_def)
  have m2: "Map_GetEntry s2 nm = Some (n + 2)"
    by (simp add: s2 s1 Map_GetEntry_def)
  have l2: "lookup (heap s2) (n + 2) = Some tomb"
    by (simp add: s2 lookup_def nth_append len1)
  have len2: "length (heap s2) = n + 3"
    by (simp add: s2 len1)
  have pT: "\<not> HasConflict catalog tx (timestamp tomb)" "deleted tomb"
    using assms(11) by (simp_all add: tomb_def)
  obtain s3 where c3: "CreateEntry catalog tx nm valB depsB s2 = Some (Inr True, s3)"
    and s3: "s3 = s2\<lparr>heap := (heap s2)[n + 2 := Some (tomb\<lparr>parent := Some (n + 3)\<rparr>)] @ [Some vB],
                   entries := AList.update (Lower nm) (n + 3) (entries s2),
                   undo_buffer := undo_buffer s2 @ pushed tx (n + 2) None,
                   events := events s2 @ [EvAddObject (valB\<lparr>timestamp := transaction_id tx\<rparr>)]\<rparr>"
    using CreateEntry_chain [OF assms(4,6) m2 l2 assms(8)] pT
    by (simp add: len2 vB_def)
  have m3: "Map_GetEntry s3 nm = Some (n + 3)"
    by (simp add: s3 s2 s1 Map_GetEntry_def)
  have l3: "lookup (heap s3) (n + 3) = Some vB"
    by (simp add: s3 lookup_def nth_append len2)
  have pB: "timestamp vB = transaction_id tx" "\<not> deleted vB"
    using assms(10) by (simp_all add: vB_def)
  have g: "GetEntry catalog tx nm s3 = Some (Inr (Some (n + 3)), s3)"
    using m3 l3 pB by (rule GetEntry_own_head)
  from c1 c2 c3 g l3 show ?thesis
    unfolding n_def vB_def by blast
qed

text \<open>
  C3. When \<open>CreateEntry\<close> finds a chain for the name (its checks passed, the dependency manager
  accepted the candidate, the candidate carries the name), the outcome is:
  \<open>TransactionException\<close> if the timestamp of the head is in conflict with the snapshot;
  false, with the heap, the map and the undo buffers unchanged, if there is no conflict and the
  head is not deleted; otherwise true, the candidate being the new head, stamped with the
  transaction id, above the old head, which is pushed to the undo buffer of the active
  transaction if the snapshot has one. In each case the call of the dependency manager is the
  only other effect. Hence, from a name without a chain, Create, Drop and Create by one
  transaction whose id does not conflict with itself all return true, and \<open>GetEntry\<close> then
  resolves to the second candidate. A transaction-local id is not in conflict with itself.
\<close>

theorem CreateEntry_existing_chain:
  assumes "CreateEntry_checks catalog nm val = None"
    "AddObject catalog tx (val\<lparr>timestamp := transaction_id tx\<rparr>) deps = None"
    "Map_GetEntry s nm = Some cur" "lookup (heap s) cur = Some ce" "CIEquals (name val) nm"
  shows "CreateEntry catalog tx nm val deps s =
     (if HasConflict catalog tx (timestamp ce)
      then Some (Inl TransactionException,
                 s\<lparr>events := events s @ [EvAddObject (val\<lparr>timestamp := transaction_id tx\<rparr>)]\<rparr>)
      else if \<not> deleted ce
      then Some (Inr False,
                 s\<lparr>events := events s @ [EvAddObject (val\<lparr>timestamp := transaction_id tx\<rparr>)]\<rparr>)
      else Some (Inr True,
                 s\<lparr>heap := (heap s)[cur := Some (ce\<lparr>parent := Some (length (heap s))\<rparr>)]
                            @ [Some (val\<lparr>timestamp := transaction_id tx, child := Some cur,
                                         parent := None\<rparr>)],
                   entries := AList.update (Lower nm) (length (heap s)) (entries s),
                   undo_buffer := undo_buffer s @ pushed tx cur None,
                   events := events s @ [EvAddObject (val\<lparr>timestamp := transaction_id tx\<rparr>)]\<rparr>))
   \<and> (\<forall>s' valA depsA cascade allow.
         Map_GetEntry s' nm = None \<and> declines catalog tx nm s' \<and>
         CreateEntry_checks catalog nm valA = None \<and>
         AddObject catalog tx (valA\<lparr>timestamp := transaction_id tx\<rparr>) depsA = None \<and>
         CIEquals (name valA) nm \<and> \<not> deleted valA \<and> \<not> deleted val \<and>
         \<not> HasConflict catalog tx (transaction_id tx) \<and> (internal valA \<longrightarrow> allow) \<and>
         (\<forall>e. DropObject catalog tx e cascade = None) \<longrightarrow>
         (\<exists>s1 s2 s3.
             CreateEntry catalog tx nm valA depsA s' = Some (Inr True, s1)
           \<and> DropEntry catalog tx nm cascade allow s1 = Some (Inr True, s2)
           \<and> CreateEntry catalog tx nm val deps s2 = Some (Inr True, s3)
           \<and> GetEntry catalog tx nm s3 = Some (Inr (Some (length (heap s') + 3)), s3)
           \<and> lookup (heap s3) (length (heap s') + 3) =
               Some (val\<lparr>timestamp := transaction_id tx, child := Some (length (heap s') + 2),
                         parent := None\<rparr>)))
   \<and> (TRANSACTION_ID_START catalog \<le> transaction_id tx \<longrightarrow>
        \<not> HasConflict catalog tx (transaction_id tx))"
proof -
  have own: "\<not> HasConflict catalog tx (transaction_id tx)"
    if "TRANSACTION_ID_START catalog \<le> transaction_id tx"
    using that by (auto simp: HasConflict_def)
  have "\<exists>s1 s2 s3.
             CreateEntry catalog tx nm valA depsA s' = Some (Inr True, s1)
           \<and> DropEntry catalog tx nm cascade allow s1 = Some (Inr True, s2)
           \<and> CreateEntry catalog tx nm val deps s2 = Some (Inr True, s3)
           \<and> GetEntry catalog tx nm s3 = Some (Inr (Some (length (heap s') + 3)), s3)
           \<and> lookup (heap s3) (length (heap s') + 3) =
               Some (val\<lparr>timestamp := transaction_id tx, child := Some (length (heap s') + 2),
                         parent := None\<rparr>)"
    if "Map_GetEntry s' nm = None \<and> declines catalog tx nm s' \<and>
         CreateEntry_checks catalog nm valA = None \<and>
         AddObject catalog tx (valA\<lparr>timestamp := transaction_id tx\<rparr>) depsA = None \<and>
         CIEquals (name valA) nm \<and> \<not> deleted valA \<and> \<not> deleted val \<and>
         \<not> HasConflict catalog tx (transaction_id tx) \<and> (internal valA \<longrightarrow> allow) \<and>
         (\<forall>e. DropObject catalog tx e cascade = None)"
    for s' valA depsA cascade allow
    using that assms(1,2,5) by (intro Create_Drop_Create) blast+
  with CreateEntry_chain [OF assms] own show ?thesis by blast
qed

theorem CreateEntry_existing_chain_witness:
  "CreateEntry_checks example_catalog ''t1'' (example_entry ''t1'' 0 False None None) = None
   \<and> Map_GetEntry dropped_set ''t1'' = Some 1
   \<and> lookup (heap dropped_set) 1 =
       Some ((example_entry ''t1'' 7 True (Some 0) None)\<lparr>type := DELETED_ENTRY\<rparr>)
   \<and> \<not> HasConflict example_catalog (example_tx 1 9) 7
   \<and> CreateEntry example_catalog (example_tx 1 9) ''t1'' (example_entry ''t1'' 0 False None None) []
        dropped_set =
       Some (Inr True,
         dropped_set\<lparr>heap :=
             [Some (example_entry ''t1'' 5 False None (Some 1)),
              Some ((example_entry ''t1'' 7 True (Some 0) (Some 2))\<lparr>type := DELETED_ENTRY\<rparr>),
              Some (example_entry ''t1'' 4611686018427388001 False (Some 1) None)],
            entries := [(''t1'', 2)], undo_buffer := [(1, 1, None)],
            events := [EvAddObject (example_entry ''t1'' 4611686018427388001 False None None)]\<rparr>)
   \<and> Map_GetEntry empty_set ''t1'' = None
   \<and> TRANSACTION_ID_START example_catalog \<le> transaction_id (example_tx 1 9)
   \<and> \<not> HasConflict example_catalog (example_tx 1 9) (transaction_id (example_tx 1 9))
   \<and> (\<exists>s1 s2 s3.
         CreateEntry example_catalog (example_tx 1 9) ''t1'' (example_entry ''t1'' 0 False None None)
           [] empty_set = Some (Inr True, s1)
       \<and> DropEntry example_catalog (example_tx 1 9) ''t1'' False False s1 = Some (Inr True, s2)
       \<and> CreateEntry example_catalog (example_tx 1 9) ''t1'' (example_entry ''t1'' 0 False None None)
           [] s2 = Some (Inr True, s3)
       \<and> GetEntry example_catalog (example_tx 1 9) ''t1'' s3 = Some (Inr (Some 3), s3)
       \<and> lookup (heap s3) 3 = Some (example_entry ''t1'' 4611686018427388001 False (Some 2) None))"
proof -
  let ?v = "example_entry ''t1'' 0 False None None"
  let ?t = "(example_entry ''t1'' 7 True (Some 0) None)\<lparr>type := DELETED_ENTRY\<rparr>"
  have m: "Map_GetEntry dropped_set ''t1'' = Some 1"
    by (simp add: eval_defs)
  have l: "lookup (heap dropped_set) 1 = Some ?t"
    by (simp add: eval_defs)
  have c: "\<not> HasConflict example_catalog (example_tx 1 9) 7"
    by (simp add: eval_defs)
  note w = CreateEntry_existing_chain [OF example_hyps(2,3) m l example_hyps(5),
      of "example_tx 1 9" "[]"]
  have 1: "CreateEntry example_catalog (example_tx 1 9) ''t1'' ?v [] dropped_set =
       Some (Inr True,
         dropped_set\<lparr>heap :=
             [Some (example_entry ''t1'' 5 False None (Some 1)),
              Some ((example_entry ''t1'' 7 True (Some 0) (Some 2))\<lparr>type := DELETED_ENTRY\<rparr>),
              Some (example_entry ''t1'' 4611686018427388001 False (Some 1) None)],
            entries := [(''t1'', 2)], undo_buffer := [(1, 1, None)],
            events := [EvAddObject (example_entry ''t1'' 4611686018427388001 False None None)]\<rparr>)"
    using w [THEN conjunct1]
    by (simp add: eval_defs pushed_def)
  have h: "Map_GetEntry empty_set ''t1'' = None \<and>
         declines example_catalog (example_tx 1 9) ''t1'' empty_set \<and>
         CreateEntry_checks example_catalog ''t1'' ?v = None \<and>
         AddObject example_catalog (example_tx 1 9)
           (?v\<lparr>timestamp := transaction_id (example_tx 1 9)\<rparr>) [] = None \<and>
         CIEquals (name ?v) ''t1'' \<and> \<not> deleted ?v \<and> \<not> deleted ?v \<and>
         \<not> HasConflict example_catalog (example_tx 1 9) (transaction_id (example_tx 1 9)) \<and>
         (internal ?v \<longrightarrow> False) \<and>
         (\<forall>e. DropObject example_catalog (example_tx 1 9) e False = None)"
    by (simp add: eval_defs declines_def)
  have 2: "\<exists>s1 s2 s3.
         CreateEntry example_catalog (example_tx 1 9) ''t1'' ?v [] empty_set = Some (Inr True, s1)
       \<and> DropEntry example_catalog (example_tx 1 9) ''t1'' False False s1 = Some (Inr True, s2)
       \<and> CreateEntry example_catalog (example_tx 1 9) ''t1'' ?v [] s2 = Some (Inr True, s3)
       \<and> GetEntry example_catalog (example_tx 1 9) ''t1'' s3 = Some (Inr (Some 3), s3)
       \<and> lookup (heap s3) 3 = Some (example_entry ''t1'' 4611686018427388001 False (Some 2) None)"
    using w [THEN conjunct2, THEN conjunct1, rule_format, OF h]
    by (simp add: empty_set_def example_entry_def example_tx_def eval_nat_numeral)
  have 3: "TRANSACTION_ID_START example_catalog \<le> transaction_id (example_tx 1 9)"
    by (simp add: eval_defs)
  from w [THEN conjunct2, THEN conjunct2, rule_format, OF 3]
  have 4: "\<not> HasConflict example_catalog (example_tx 1 9) (transaction_id (example_tx 1 9))" .
  from 1 2 3 4 m l c example_hyps(1,2) show ?thesis
    by simp
qed

section \<open>Undo\<close>

lemma CreateEntryInternal_free:
  assumes "Map_GetEntry s (name entry) = None"
  shows "\<exists>a s'. CreateEntryInternal entry s = (Inr (Some a), s')"
  using assms
  by (simp add: CreateEntryInternal_def Map_AddEntry_def Map_GetEntry_def monad_defs lookup_def)

lemma CreateDefaultEntry_absent:
  assumes "CreateDefaultEntry catalog tx nm s = Some y"
  shows "Map_GetEntry s nm = None \<longrightarrow> fst y = Inr None \<longrightarrow>
           y = (Inr None, s) \<and> declines catalog tx nm s"
proof (rule CreateDefaultEntry.raw_induct
    [where P = "\<lambda>catalog tx nm s y. Map_GetEntry s nm = None \<longrightarrow> fst y = Inr None \<longrightarrow>
           y = (Inr None, s) \<and> declines catalog tx nm s", OF _ assms])
  fix f catalog tx nm s y
  assume IH: "\<And>catalog tx nm s y. f catalog tx nm s = Some y \<Longrightarrow>
      Map_GetEntry s nm = None \<longrightarrow> fst y = Inr None \<longrightarrow>
           y = (Inr None, s) \<and> declines catalog tx nm s"
    and body: "(case defaults catalog of
        None \<Rightarrow> Some (Inr None, s)
      | Some generator \<Rightarrow>
          if created_all_entries s then Some (Inr None, s)
          else
            (case client_context tx of
               None \<Rightarrow> Some (Inr None, s)
             | Some ctx \<Rightarrow>
                 (case generator ctx nm of
                    None \<Rightarrow> Some (Inr None, s)
                  | Some entry \<Rightarrow>
                      (case CreateEntryInternal entry s of
                         (Inl x, s') \<Rightarrow> Some (Inl x, s')
                       | (Inr (Some result), s') \<Rightarrow> Some (Inr (Some result), s')
                       | (Inr None, s') \<Rightarrow>
                           (case Map_GetEntry s' nm of
                              Some entry_value \<Rightarrow> GetEntry_found tx entry_value s'
                            | None \<Rightarrow> f catalog tx nm s'))))) = Some y"
  show "Map_GetEntry s nm = None \<longrightarrow> fst y = Inr None \<longrightarrow>
           y = (Inr None, s) \<and> declines catalog tx nm s"
  proof (intro impI)
    assume m: "Map_GetEntry s nm = None" and y: "fst y = Inr None"
    show "y = (Inr None, s) \<and> declines catalog tx nm s"
    proof (cases "declines catalog tx nm s")
      case True
      with body show ?thesis
        by (auto simp: declines_def split: option.splits if_splits)
    next
      case False
      then obtain generator ctx entry where g: "defaults catalog = Some generator"
        "\<not> created_all_entries s" "client_context tx = Some ctx" "generator ctx nm = Some entry"
        by (auto simp: declines_def split: option.splits)
      show ?thesis
      proof (cases "Map_GetEntry s (name entry)")
        case None
        from CreateEntryInternal_free [OF this] obtain a s' where
          "CreateEntryInternal entry s = (Inr (Some a), s')" by blast
        with body g y show ?thesis by auto
      next
        case (Some b)
        then have "CreateEntryInternal entry s = (Inr None, s)"
          by (simp add: CreateEntryInternal_def ret_def)
        with body g m have "f catalog tx nm s = Some y" by simp
        from IH [OF this] m y show ?thesis by simp
      qed
    qed
  qed
qed

lemma CreateEntry_true_fresh:
  assumes "Map_GetEntry s nm = None" "CreateEntry catalog tx nm val deps s = Some (Inr True, s1)"
  shows "CreateEntry_checks catalog nm val = None
       \<and> AddObject catalog tx (val\<lparr>timestamp := transaction_id tx\<rparr>) deps = None
       \<and> declines catalog tx nm s"
proof -
  let ?s0 = "s\<lparr>events := events s @ [EvAddObject (val\<lparr>timestamp := transaction_id tx\<rparr>)]\<rparr>"
  from assms(2) have c: "CreateEntry_checks catalog nm val = None"
    by (auto simp: CreateEntry_def split: option.splits)
  from assms(2) c have a: "AddObject catalog tx (val\<lparr>timestamp := transaction_id tx\<rparr>) deps = None"
    by (auto simp: CreateEntry_def Let_def split: option.splits)
  from assms c a obtain y where y: "CreateDefaultEntry catalog tx nm ?s0 = Some y" "fst y = Inr None"
    by (auto simp: CreateEntry_def Let_def bindP_def split: option.splits sum.splits prod.splits)
  from CreateDefaultEntry_absent [OF y(1)] assms(1) y(2)
  have "declines catalog tx nm ?s0" by simp
  then have "declines catalog tx nm s"
    by (simp add: declines_frame [of ?s0 s tx tx])
  with c a show ?thesis by simp
qed

text \<open>
  C6. If \<open>CreateEntry\<close> returns true on a name that had no chain (the candidate carrying the
  name, the snapshot having an active transaction), what it pushed to the undo buffer is the
  placeholder; \<open>Undo\<close> of that entry succeeds and unlinks and frees both the created version and
  the placeholder. Afterwards the map is the map before the create and holds no chain for the
  name, the older cells of the heap are untouched, and \<open>GetEntry\<close> of a snapshot of the same
  client context returns absent.
\<close>

theorem Undo_create:
  assumes "Map_GetEntry s nm = None" "CreateEntry catalog tx nm val deps s = Some (Inr True, s1)"
    "CIEquals (name val) nm" "transaction tx = Some t"
  shows "let n = length (heap s);
             s2 = s\<lparr>heap := heap s @ [None, None],
                     undo_buffer := undo_buffer s @ [(t, n, None)],
                     events := events s @ [EvAddObject (val\<lparr>timestamp := transaction_id tx\<rparr>),
                                           EvSetAsRoot n, EvModifyCatalog]\<rparr>
         in undo_buffer s1 = undo_buffer s @ [(t, n, None)]
            \<and> Undo n s1 = (Inr (), s2)
            \<and> Map_GetEntry s2 nm = None
            \<and> (\<forall>tx'. client_context tx' = client_context tx \<longrightarrow>
                  GetEntry catalog tx' nm s2 = Some (Inr None, s2))"
proof -
  define n where "n = length (heap s)"
  define v where "v = val\<lparr>timestamp := transaction_id tx, child := Some n, parent := None\<rparr>"
  define s2 where "s2 = s\<lparr>heap := heap s @ [None, None],
                     undo_buffer := undo_buffer s @ [(t, n, None)],
                     events := events s @ [EvAddObject (val\<lparr>timestamp := transaction_id tx\<rparr>),
                                           EvSetAsRoot n, EvModifyCatalog]\<rparr>"
  from CreateEntry_true_fresh [OF assms(1,2)]
  have h: "CreateEntry_checks catalog nm val = None"
    "AddObject catalog tx (val\<lparr>timestamp := transaction_id tx\<rparr>) deps = None"
    "declines catalog tx nm s" by simp_all
  from CreateEntry_fresh [OF assms(1) h assms(3)] assms(2,4)
  have s1: "s1 = s\<lparr>heap := heap s @ [Some (placeholder nm (Suc n)), Some v],
         entries := (Lower nm, Suc n) # entries s,
         undo_buffer := undo_buffer s @ [(t, n, None)],
         events := events s @ [EvAddObject (val\<lparr>timestamp := transaction_id tx\<rparr>)]\<rparr>"
    by (simp add: n_def v_def pushed_def)
  have u: "undo_buffer s1 = undo_buffer s @ [(t, n, None)]"
    by (simp add: s1)
  have l0: "lookup (heap s1) n = Some (placeholder nm (Suc n))"
    by (simp add: s1 n_def lookup_def nth_append)
  have l1: "lookup (heap s1) (Suc n) = Some v"
    by (simp add: s1 n_def lookup_def nth_append)
  have nv: "Lower (name v) = Lower nm" "Lower (name val) = Lower nm"
    using assms(3) by (simp_all add: v_def CIEquals_def)
  let ?s1' = "s1\<lparr>events := events s1 @ [EvSetAsRoot n]\<rparr>"
  let ?sa = "?s1'\<lparr>heap := (heap ?s1')[n := Some ((placeholder nm (Suc n))\<lparr>parent := None\<rparr>),
                                      Suc n := None],
                  entries := AList.update (Lower (name v)) n (entries ?s1')\<rparr>"
  have d1: "Map_DropEntry (Suc n) ?s1' = (Inr (), ?sa)"
    by (rule Map_DropEntry_head_child [where ce = "placeholder nm (Suc n)"])
       (simp_all add: v_def Map_GetEntry_def s1 nv lookup_def nth_append n_def)
  have la: "lookup (heap ?sa) n = Some ((placeholder nm (Suc n))\<lparr>parent := None\<rparr>)"
    by (simp add: s1 n_def lookup_def nth_append nth_list_update)
  let ?sb = "?sa\<lparr>heap := (heap ?sa)[n := None],
                 entries := AList.delete (Lower (name ((placeholder nm (Suc n))\<lparr>parent := None\<rparr>)))
                              (entries ?sa)\<rparr>"
  have d2: "Map_DropEntry n ?sa = (Inr (), ?sb)"
    by (rule Map_DropEntry_head_leaf [OF la])
       (simp_all add: placeholder_def Map_GetEntry_def s1 nv v_def)
  have k: "Lower nm \<notin> fst ` set (entries s)"
    using assms(1) by (simp add: Map_GetEntry_def map_of_eq_None_iff)
  have sb: "log_event EvModifyCatalog ?sb = (Inr (), s2)"
    using k
    by (simp add: log_event_def s2_def s1 nv placeholder_def n_def list_update_append
        delete_id)
  have un: "Undo n s1 = (Inr (), s2)"
    using l0 l1 d1 la d2 sb
    by (simp add: Undo_def bindE_def log_event_def placeholder_def v_def ret_def)
  have m2: "Map_GetEntry s2 nm = None"
    using assms(1) by (simp add: s2_def Map_GetEntry_def)
  have "GetEntry catalog tx' nm s2 = Some (Inr None, s2)"
    if "client_context tx' = client_context tx" for tx'
  proof -
    have "created_all_entries s2 = created_all_entries s"
      by (simp add: s2_def)
    from declines_frame [OF this that] h(3) have "declines catalog tx' nm s2"
      by simp
    then show ?thesis
      using m2 by (simp add: GetEntry_def CreateDefaultEntry_declines)
  qed
  with u un m2 show ?thesis
    unfolding Let_def s2_def [symmetric] n_def [symmetric] by blast
qed

theorem Undo_create_witness:
  "Map_GetEntry empty_set ''t1'' = None
   \<and> CreateEntry example_catalog (example_tx 1 5) ''t1'' (example_entry ''t1'' 0 False None None) []
        empty_set = Some (Inr True, created_set)
   \<and> undo_buffer created_set = [(1, 0, None)]
   \<and> Undo 0 created_set =
       (Inr (), empty_set\<lparr>heap := [None, None], undo_buffer := [(1, 0, None)],
          events := [EvAddObject (example_entry ''t1'' 4611686018427388001 False None None),
                     EvSetAsRoot 0, EvModifyCatalog]\<rparr>)
   \<and> GetEntry example_catalog (example_tx 3 9) ''t1''
        (empty_set\<lparr>heap := [None, None], undo_buffer := [(1, 0, None)],
          events := [EvAddObject (example_entry ''t1'' 4611686018427388001 False None None),
                     EvSetAsRoot 0, EvModifyCatalog]\<rparr>)
      = Some (Inr None,
          empty_set\<lparr>heap := [None, None], undo_buffer := [(1, 0, None)],
          events := [EvAddObject (example_entry ''t1'' 4611686018427388001 False None None),
                     EvSetAsRoot 0, EvModifyCatalog]\<rparr>)"
proof -
  let ?v = "example_entry ''t1'' 0 False None None"
  let ?tx = "example_tx 3 9"
  have c: "CreateEntry example_catalog (example_tx 1 5) ''t1'' ?v [] empty_set
      = Some (Inr True, created_set)"
    by (simp add: created_set_def placeholder_def eval_defs)
  have t: "transaction (example_tx 1 5) = Some 1"
    by (simp add: example_tx_def)
  note w = Undo_create [OF example_hyps(1) c example_hyps(5) t, unfolded Let_def]
  from w have "\<forall>tx'. client_context tx' = client_context (example_tx 1 5) \<longrightarrow>
      GetEntry example_catalog tx' ''t1''
        (empty_set\<lparr>heap := heap empty_set @ [None, None],
           undo_buffer := undo_buffer empty_set @ [(1, length (heap empty_set), None)],
           events := events empty_set @
             [EvAddObject (?v\<lparr>timestamp := transaction_id (example_tx 1 5)\<rparr>),
              EvSetAsRoot (length (heap empty_set)), EvModifyCatalog]\<rparr>) =
      Some (Inr None, empty_set\<lparr>heap := heap empty_set @ [None, None],
           undo_buffer := undo_buffer empty_set @ [(1, length (heap empty_set), None)],
           events := events empty_set @
             [EvAddObject (?v\<lparr>timestamp := transaction_id (example_tx 1 5)\<rparr>),
              EvSetAsRoot (length (heap empty_set)), EvModifyCatalog]\<rparr>)"
    by blast
  from this [rule_format, of ?tx] w c example_hyps(1) show ?thesis
    by (simp add: empty_set_def example_tx_def example_entry_def)
qed

section \<open>Resolving a name for a snapshot\<close>

text \<open>
  Notions for the statements. \<open>chain_at h as\<close>: the addresses \<open>as\<close> are, from the head down to
  the oldest version, the live versions of one chain of the heap \<open>h\<close>, each the child of the
  one before. \<open>first_or_last P as\<close>: the first address of \<open>as\<close> that satisfies \<open>P\<close>, and the
  last address of \<open>as\<close> when none does. \<open>visible_at\<close>, \<open>committed_at\<close>, \<open>deleted_at\<close>: the entry
  at an address has a timestamp the snapshot can use, has a committed timestamp, is deleted.
\<close>

fun chain_at :: "CatalogEntry option list \<Rightarrow> addr list \<Rightarrow> bool" where
  "chain_at h [] = False"
| "chain_at h [a] = (case lookup h a of None \<Rightarrow> False | Some e \<Rightarrow> child e = None)"
| "chain_at h (a # b # bs) =
     (case lookup h a of None \<Rightarrow> False | Some e \<Rightarrow> child e = Some b \<and> chain_at h (b # bs))"

definition visible_at :: "CatalogEntry option list \<Rightarrow> CatalogTransaction \<Rightarrow> addr \<Rightarrow> bool" where
  "visible_at h tx a =
     (case lookup h a of None \<Rightarrow> False | Some e \<Rightarrow> UseTimestamp tx (timestamp e))"

definition committed_at :: "Catalog \<Rightarrow> CatalogEntry option list \<Rightarrow> addr \<Rightarrow> bool" where
  "committed_at catalog h a =
     (case lookup h a of None \<Rightarrow> False | Some e \<Rightarrow> timestamp e < TRANSACTION_ID_START catalog)"

definition deleted_at :: "CatalogEntry option list \<Rightarrow> addr \<Rightarrow> bool" where
  "deleted_at h a = (case lookup h a of None \<Rightarrow> False | Some e \<Rightarrow> deleted e)"

definition first_or_last :: "(addr \<Rightarrow> bool) \<Rightarrow> addr list \<Rightarrow> addr" where
  "first_or_last P as = (case find P as of Some v \<Rightarrow> v | None \<Rightarrow> last as)"

lemma first_or_last_single [simp]: "first_or_last P [a] = a"
  by (simp add: first_or_last_def)

lemma first_or_last_Cons [simp]:
  "first_or_last P (a # b # bs) = (if P a then a else first_or_last P (b # bs))"
  by (auto simp: first_or_last_def split: option.splits)

lemma GetEntryForTransaction_chain:
  "chain_at h (a # as) \<Longrightarrow>
   GetEntryForTransaction h tx a = Some (Inr (first_or_last (visible_at h tx) (a # as)))"
proof (induction as arbitrary: a)
  case Nil
  then obtain e where e: "lookup h a = Some e" "child e = None"
    by (auto split: option.splits)
  then have "GetEntryForTransaction h tx a = Some (Inr a)"
    by (intro GetEntryForTransaction_stop [OF e(1)]) simp
  then show ?case by simp
next
  case (Cons b bs)
  then obtain e where e: "lookup h a = Some e" "child e = Some b" "chain_at h (b # bs)"
    by (auto split: option.splits)
  show ?case
  proof (cases "UseTimestamp tx (timestamp e)")
    case True
    then have "GetEntryForTransaction h tx a = Some (Inr a)"
      by (intro GetEntryForTransaction_stop [OF e(1)]) simp
    with True e(1) show ?thesis by (simp add: visible_at_def)
  next
    case False
    then have "GetEntryForTransaction h tx a = GetEntryForTransaction h tx b"
      by (intro GetEntryForTransaction_step [OF e(1,2)])
    with Cons.IH [OF e(3)] False e(1) show ?thesis
      by (simp add: visible_at_def)
  qed
qed

lemma chain_at_live: "chain_at h as \<Longrightarrow> x \<in> set as \<Longrightarrow> lookup h x \<noteq> None"
  by (induction h as rule: chain_at.induct) (auto split: option.splits)

lemma first_or_last_in: "as \<noteq> [] \<Longrightarrow> first_or_last P as \<in> set as"
  by (auto simp: first_or_last_def find_Some_iff split: option.splits)

lemma find_agree:
  "(\<And>x. x \<in> set as \<Longrightarrow> P x = Q x) \<Longrightarrow> find P as = find Q as"
  by (induction as) auto

lemma first_or_last_cong:
  "(\<And>x. x \<in> set as \<Longrightarrow> P x = Q x) \<Longrightarrow> first_or_last P as = first_or_last Q as"
  unfolding first_or_last_def by (simp add: find_agree [of as P Q])

lemma UseTimestamp_committed:
  "start_time tx \<le> TRANSACTION_ID_START catalog \<Longrightarrow>
   UseTimestamp tx ts \<longleftrightarrow>
     ts = transaction_id tx \<or> (ts < TRANSACTION_ID_START catalog \<and> ts < start_time tx)"
  by (auto simp: UseTimestamp_def)

text \<open>
  The set \<open>created_set\<close> after the commit of transaction 1 at time 7 and the cleanup of the
  placeholder: the chain of \<open>t1\<close> is the one version committed at time 7.
\<close>

definition late_set :: CatalogSet where
  "late_set = created_set\<lparr>heap := [None, Some (example_entry ''t1'' 7 False None None)]\<rparr>"

text \<open>
  C1, as stated, fails on a chain none of whose versions the snapshot can use: the walk ends at
  the oldest version whatever its timestamp. Transaction 1 creates \<open>t1\<close> and commits at time 7,
  and the placeholder is cleaned up; for a snapshot started at time 5 \<open>GetEntry\<close> returns the
  version committed at time 7.
\<close>

theorem GetEntry_resolves_counterexample:
  "CreateEntry example_catalog (example_tx 1 4) ''t1'' (example_entry ''t1'' 0 False None None) []
     empty_set = Some (Inr True, created_set)
   \<and> CleanupEntry 0 (snd (UpdateTimestamp 1 7 created_set)) = (Inr (), late_set)
   \<and> Map_GetEntry late_set ''t1'' = Some 1
   \<and> lookup (heap late_set) 1 = Some (example_entry ''t1'' 7 False None None)
   \<and> \<not> UseTimestamp (example_tx 2 5) 7
   \<and> GetEntry example_catalog (example_tx 2 5) ''t1'' late_set = Some (Inr (Some 1), late_set)"
  by (simp add: late_set_def created_set_def placeholder_def UpdateTimestamp_def eval_defs)

text \<open>
  C1, amended. For every snapshot and every chain, \<open>GetEntry\<close> walks from the head toward older
  versions and stops at the first version whose timestamp equals the snapshot's transaction id
  or is smaller than the snapshot's start time (for a start time not above
  \<open>TRANSACTION_ID_START\<close>: is committed before the start time), or at the oldest version of
  the chain when there is no such version. If the version it stops at is deleted it returns
  absent, otherwise that version. So when a version that the snapshot cannot use is put on top
  of a chain, the snapshot resolves the name as before.
\<close>

theorem GetEntry_resolves:
  assumes "Map_GetEntry s nm = Some a" "chain_at (heap s) (a # as)"
  shows "let r = first_or_last (visible_at (heap s) tx) (a # as) in
           GetEntryForTransaction (heap s) tx a = Some (Inr r)
         \<and> GetEntry catalog tx nm s =
             Some (Inr (if deleted_at (heap s) r then None else Some r), s)
         \<and> (\<forall>h' n. chain_at h' (n # a # as) \<and> \<not> visible_at h' tx n \<and>
                (\<forall>x \<in> set (a # as). visible_at h' tx x = visible_at (heap s) tx x) \<longrightarrow>
                GetEntryForTransaction h' tx n = Some (Inr r))
         \<and> (start_time tx \<le> TRANSACTION_ID_START catalog \<longrightarrow>
              (\<forall>ts. UseTimestamp tx ts \<longleftrightarrow>
                 ts = transaction_id tx \<or>
                 (ts < TRANSACTION_ID_START catalog \<and> ts < start_time tx)))"
proof -
  define r where "r = first_or_last (visible_at (heap s) tx) (a # as)"
  have w: "GetEntryForTransaction (heap s) tx a = Some (Inr r)"
    unfolding r_def using assms(2) by (rule GetEntryForTransaction_chain)
  have "r \<in> set (a # as)"
    unfolding r_def by (rule first_or_last_in) simp
  from chain_at_live [OF assms(2) this] obtain e where e: "lookup (heap s) r = Some e"
    by auto
  have g: "GetEntry catalog tx nm s =
             Some (Inr (if deleted_at (heap s) r then None else Some r), s)"
    using assms(1) w e
    by (simp add: GetEntry_def GetEntry_found_def bindE_def ret_def deleted_at_def)
  have i: "GetEntryForTransaction h' tx n = Some (Inr r)"
    if "chain_at h' (n # a # as)" "\<not> visible_at h' tx n"
      "\<forall>x \<in> set (a # as). visible_at h' tx x = visible_at (heap s) tx x" for h' n
  proof -
    have "first_or_last (visible_at h' tx) (n # a # as) = first_or_last (visible_at h' tx) (a # as)"
      using that(2) by simp
    also have "\<dots> = r"
      unfolding r_def using that(3) by (intro first_or_last_cong) blast
    finally show ?thesis
      using GetEntryForTransaction_chain [OF that(1), of tx] by simp
  qed
  have u: "UseTimestamp tx ts \<longleftrightarrow>
     ts = transaction_id tx \<or> (ts < TRANSACTION_ID_START catalog \<and> ts < start_time tx)"
    if "start_time tx \<le> TRANSACTION_ID_START catalog" for ts
    using that by (rule UseTimestamp_committed)
  from w g i u show ?thesis
    unfolding Let_def r_def [symmetric] by blast
qed

theorem GetEntry_resolves_witness:
  "Map_GetEntry example_set ''t1'' = Some 1
   \<and> chain_at (heap example_set) [1, 0]
   \<and> \<not> visible_at (heap example_set) (example_tx 1 5) 1
   \<and> visible_at (heap example_set) (example_tx 1 5) 0
   \<and> GetEntryForTransaction (heap example_set) (example_tx 1 5) 1 = Some (Inr 0)
   \<and> GetEntry example_catalog (example_tx 1 5) ''t1'' example_set = Some (Inr (Some 0), example_set)
   \<and> chain_at (heap example_set @ [Some (example_entry ''t1'' 8 False (Some 1) None)]) [2, 1, 0]
   \<and> GetEntryForTransaction (heap example_set @ [Some (example_entry ''t1'' 8 False (Some 1) None)])
        (example_tx 1 5) 2 = Some (Inr 0)
   \<and> start_time (example_tx 1 5) \<le> TRANSACTION_ID_START example_catalog
   \<and> UseTimestamp (example_tx 1 5) 3"
proof -
  let ?h' = "heap example_set @ [Some (example_entry ''t1'' 8 False (Some 1) None)]"
  have m: "Map_GetEntry example_set ''t1'' = Some 1"
    by (simp add: eval_defs)
  have c: "chain_at (heap example_set) [1, 0]"
    by (simp add: eval_defs)
  have v: "\<not> visible_at (heap example_set) (example_tx 1 5) 1"
    "visible_at (heap example_set) (example_tx 1 5) 0"
    by (simp_all add: visible_at_def eval_defs)
  have r: "first_or_last (visible_at (heap example_set) (example_tx 1 5)) [1, 0] = 0"
    using v by simp
  have d: "\<not> deleted_at (heap example_set) 0"
    by (simp add: deleted_at_def eval_defs)
  have i: "chain_at ?h' (2 # 1 # [0]) \<and> \<not> visible_at ?h' (example_tx 1 5) 2 \<and>
      (\<forall>x \<in> set (1 # [0]). visible_at ?h' (example_tx 1 5) x
                              = visible_at (heap example_set) (example_tx 1 5) x)"
    by (simp add: visible_at_def eval_defs)
  have s: "start_time (example_tx 1 5) \<le> TRANSACTION_ID_START example_catalog"
    by (simp add: eval_defs)
  note w = GetEntry_resolves [OF m c, of "example_tx 1 5" example_catalog, unfolded Let_def r]
  from w have 1: "GetEntryForTransaction (heap example_set) (example_tx 1 5) 1 = Some (Inr 0)"
    by blast
  from w d have 2: "GetEntry example_catalog (example_tx 1 5) ''t1'' example_set
      = Some (Inr (Some 0), example_set)"
    by simp
  from w have "\<forall>h' n. chain_at h' (n # 1 # [0]) \<and> \<not> visible_at h' (example_tx 1 5) n \<and>
                (\<forall>x \<in> set (1 # [0]). visible_at h' (example_tx 1 5) x
                    = visible_at (heap example_set) (example_tx 1 5) x) \<longrightarrow>
                GetEntryForTransaction h' (example_tx 1 5) n = Some (Inr 0)"
    by blast
  from this [rule_format, OF i]
  have 3: "GetEntryForTransaction ?h' (example_tx 1 5) 2 = Some (Inr 0)" .
  from w s have "\<forall>ts. UseTimestamp (example_tx 1 5) ts \<longleftrightarrow>
                 ts = transaction_id (example_tx 1 5) \<or>
                 (ts < TRANSACTION_ID_START example_catalog \<and> ts < start_time (example_tx 1 5))"
    by blast
  then have 4: "UseTimestamp (example_tx 1 5) 3"
    by (simp add: example_catalog_def example_tx_def)
  from m c v 1 2 3 4 i s show ?thesis
    by simp
qed

section \<open>The conflict rule\<close>







section \<open>Scan\<close>

lemma GetCommittedEntry_chain:
  "chain_at h (a # as) \<Longrightarrow>
   GetCommittedEntry catalog h a = Some (Inr (first_or_last (committed_at catalog h) (a # as)))"
proof (induction as arbitrary: a)
  case Nil
  then obtain e where e: "lookup h a = Some e" "child e = None"
    by (auto split: option.splits)
  then have "GetCommittedEntry catalog h a = Some (Inr a)"
    by (subst GetCommittedEntry.simps) simp
  then show ?case by simp
next
  case (Cons b bs)
  then obtain e where e: "lookup h a = Some e" "child e = Some b" "chain_at h (b # bs)"
    by (auto split: option.splits)
  show ?case
  proof (cases "timestamp e < TRANSACTION_ID_START catalog")
    case True
    then have "GetCommittedEntry catalog h a = Some (Inr a)"
      using e by (subst GetCommittedEntry.simps) simp
    with True e(1) show ?thesis by (simp add: committed_at_def)
  next
    case False
    then have "GetCommittedEntry catalog h a = GetCommittedEntry catalog h b"
      using e by (subst GetCommittedEntry.simps) simp
    with Cons.IH [OF e(3)] False e(1) show ?thesis
      by (simp add: committed_at_def)
  qed
qed

lemma Scan_entries_chain:
  assumes "\<forall>(k, a) \<in> set kvs. chain_at h (a # older a)"
  shows "Scan_entries catalog h kvs =
     Some (Inr (filter (\<lambda>r. \<not> deleted_at h r)
                  (map (\<lambda>(k, a). first_or_last (committed_at catalog h) (a # older a)) kvs)))"
  using assms
proof (induction kvs)
  case Nil
  then show ?case by simp
next
  case (Cons kv kvs)
  obtain k a where kv: "kv = (k, a)" by (cases kv)
  define r where "r = first_or_last (committed_at catalog h) (a # older a)"
  from Cons.prems kv have c: "chain_at h (a # older a)" by simp
  have w: "GetCommittedEntry catalog h a = Some (Inr r)"
    unfolding r_def using c by (rule GetCommittedEntry_chain)
  have "r \<in> set (a # older a)"
    unfolding r_def by (rule first_or_last_in) simp
  from chain_at_live [OF c this] obtain e where e: "lookup h r = Some e" by auto
  from Cons.prems have "\<forall>(k, a) \<in> set kvs. chain_at h (a # older a)" by simp
  from Cons.IH [OF this] w e kv show ?case
    by (simp add: r_def [symmetric] deleted_at_def)
qed

text \<open>
  The set \<open>created_set\<close> after the cleanup of the placeholder: the chain of \<open>t1\<close> is the one
  version written by transaction 1, not committed.
\<close>

definition uncommitted_set :: CatalogSet where
  "uncommitted_set =
     created_set\<lparr>heap := [None, Some (example_entry ''t1'' 4611686018427388001 False None None)]\<rparr>"

text \<open>
  C8, as stated, fails in two ways. In \<open>dropped_set\<close> the chain holds a version that is
  committed and not deleted, below a committed tombstone: \<open>Scan\<close> stops at the tombstone and
  invokes the callback on nothing. In \<open>uncommitted_set\<close> the chain holds no committed version:
  \<open>Scan\<close> ends at the oldest version and invokes the callback on it.
\<close>

theorem Scan_committed_counterexample:
  "lookup (heap dropped_set) 0 = Some (example_entry ''t1'' 5 False None (Some 1))
   \<and> (5 :: transaction_t) < TRANSACTION_ID_START example_catalog
   \<and> \<not> deleted (example_entry ''t1'' 5 False None (Some 1))
   \<and> Scan example_catalog dropped_set = Some (Inr [])
   \<and> CleanupEntry 0 created_set = (Inr (), uncommitted_set)
   \<and> lookup (heap uncommitted_set) 1 =
       Some (example_entry ''t1'' 4611686018427388001 False None None)
   \<and> \<not> (4611686018427388001 :: transaction_t) < TRANSACTION_ID_START example_catalog
   \<and> Scan example_catalog uncommitted_set = Some (Inr [1])"
  by (simp add: uncommitted_set_def created_set_def placeholder_def eval_defs)

text \<open>
  C8, amended. For every chain of the set (\<open>older a\<close> lists the versions below the head \<open>a\<close>),
  the untransacted \<open>Scan\<close> takes the newest version with a committed timestamp, or the oldest
  version of the chain when none is committed, and invokes the callback on it exactly when it
  is not deleted; it invokes the callback on no other version of the chain. The callbacks are
  made in the order of the map.
\<close>

theorem Scan_committed:
  assumes "\<forall>(k, a) \<in> set (entries s). chain_at (heap s) (a # older a)"
  shows "Scan catalog s =
     Some (Inr (filter (\<lambda>r. \<not> deleted_at (heap s) r)
                  (map (\<lambda>(k, a). first_or_last (committed_at catalog (heap s)) (a # older a))
                     (entries s))))"
  unfolding Scan_def using assms by (rule Scan_entries_chain)

theorem Scan_committed_witness:
  "entries example_set = [(''t1'', 1)]
   \<and> chain_at (heap example_set) [1, 0]
   \<and> \<not> committed_at example_catalog (heap example_set) 1
   \<and> committed_at example_catalog (heap example_set) 0
   \<and> Scan example_catalog example_set = Some (Inr [0])"
proof -
  have c: "\<forall>(k, a) \<in> set (entries example_set).
       chain_at (heap example_set) (a # (if a = 1 then [0] else []))"
    by (simp add: eval_defs)
  have v: "\<not> committed_at example_catalog (heap example_set) 1"
    "committed_at example_catalog (heap example_set) 0"
    by (simp_all add: committed_at_def eval_defs)
  have d: "\<not> deleted_at (heap example_set) 0"
    by (simp add: deleted_at_def eval_defs)
  have e: "entries example_set = [(''t1'', 1)]"
    by (simp add: example_set_def)
  from Scan_committed [OF c, of example_catalog] v d
  have "Scan example_catalog example_set = Some (Inr [0])"
    by (simp add: e)
  moreover have "chain_at (heap example_set) [1, 0]"
    by (simp add: eval_defs)
  ultimately show ?thesis using v e by blast
qed

end
